theory Spec2Isabelle
  imports Complex_Main "HOL-Library.AList"
begin

section \<open>Python values\<close>

text \<open>
  A Python \<open>str\<close> is a sequence of Unicode code points and \<open>len\<close> counts code points,
  so a string is modelled as a list of code points. ASCII literals of the source are
  written through \<open>u\<close>.
\<close>

type_synonym ustr = "nat list"

definition u :: "string \<Rightarrow> ustr" where
  "u s = map of_char s"

text \<open>A Python \<open>float\<close>: a finite double, given by its value, an infinity (\<open>True\<close> for the
  negative one) or a NaN. \<open>json.loads\<close> produces all three.\<close>

datatype pyfloat = Finite real | Infinity bool | NaN

text \<open>The values \<open>json.loads\<close> produces. A \<open>dict\<close> keeps insertion order and is an
  association list; an \<open>int\<close> is unbounded.\<close>

datatype json =
    JNull
  | JBool bool
  | JInt int
  | JFloat pyfloat
  | JStr ustr
  | JList "json list"
  | JDict "(ustr \<times> json) list"

type_synonym pydict = "(ustr \<times> json) list"

datatype exc_class =
    JSONDecodeError | AttributeError | TypeError | IndexError | KeyError
  | ValueError | HTTPError | RequestException | OverflowError | RecursionError
  | UnicodeDecodeError | UnicodeEncodeError | OSError

text \<open>A raised exception: its class and the text \<open>str(e)\<close> gives.\<close>

datatype py_exception = PyExc exc_class ustr

fun exc_str :: "py_exception \<Rightarrow> ustr" where
  "exc_str (PyExc c msg) = msg"

fun exc_class_of :: "py_exception \<Rightarrow> exc_class" where
  "exc_class_of (PyExc c msg) = c"

fun type_name :: "json \<Rightarrow> ustr" where
  "type_name JNull = u ''NoneType''"
| "type_name (JBool b) = u ''bool''"
| "type_name (JInt i) = u ''int''"
| "type_name (JFloat r) = u ''float''"
| "type_name (JStr s) = u ''str''"
| "type_name (JList xs) = u ''list''"
| "type_name (JDict d) = u ''dict''"

section \<open>String operations of the standard library\<close>

text \<open>\<open>str.isspace\<close> for one code point.\<close>

definition is_space :: "nat \<Rightarrow> bool" where
  "is_space c \<longleftrightarrow>
     (9 \<le> c \<and> c \<le> 13) \<or> (28 \<le> c \<and> c \<le> 32) \<or> c = 133 \<or> c = 160 \<or> c = 5760 \<or>
     (8192 \<le> c \<and> c \<le> 8202) \<or> c = 8232 \<or> c = 8233 \<or> c = 8239 \<or> c = 8287 \<or> c = 12288"

definition strip :: "ustr \<Rightarrow> ustr" where
  "strip s = rev (dropWhile is_space (rev (dropWhile is_space s)))"

definition startswith :: "ustr \<Rightarrow> ustr \<Rightarrow> bool" where
  "startswith s p \<longleftrightarrow> take (length p) s = p"

definition endswith :: "ustr \<Rightarrow> ustr \<Rightarrow> bool" where
  "endswith s p \<longleftrightarrow> length p \<le> length s \<and> drop (length s - length p) s = p"

text \<open>\<open>s.split(sep)\<close> for a non-empty separator: \<open>cur\<close> is the piece being read, the
  separator is matched left to right without overlap.\<close>

function split_from :: "ustr \<Rightarrow> ustr \<Rightarrow> ustr \<Rightarrow> ustr list" where
  "split_from sep cur [] = [cur]"
| "split_from sep cur (c # cs) =
     (if sep \<noteq> [] \<and> take (length sep) (c # cs) = sep
      then cur # split_from sep [] (drop (length sep) (c # cs))
      else split_from sep (cur @ [c]) cs)"
  by pat_completeness auto
termination
  by (relation "measure (\<lambda>(sep, cur, s). length s)") auto

definition split :: "ustr \<Rightarrow> ustr \<Rightarrow> ustr list" where
  "split s sep = split_from sep [] s"

text \<open>\<open>sep.join(parts)\<close>.\<close>

fun join :: "ustr \<Rightarrow> ustr list \<Rightarrow> ustr" where
  "join sep [] = []"
| "join sep [p] = p"
| "join sep (p # q # ps) = p @ sep @ join sep (q # ps)"

section \<open>Response parser\<close>

definition fence :: ustr where
  "fence = u ''```''"

text \<open>The first lines of \<open>parse_batch_votes\<close>: the text handed to \<open>json.loads\<close>.
  \<open>text.split("```")[1]\<close> raises IndexError when the split has one piece only.\<close>

definition unfence :: "ustr \<Rightarrow> py_exception + ustr" where
  "unfence raw =
     (let text = strip raw in
      (case (if startswith text fence
             then (case split text fence of
                     a # b # rest \<Rightarrow> Inr (if startswith b (u ''json'') then drop 4 b else b)
                   | _ \<Rightarrow> Inl (PyExc IndexError (u ''list index out of range'')))
             else Inr text) of
         Inl e \<Rightarrow> Inl e
       | Inr text \<Rightarrow>
           Inr (strip (if endswith text fence then take (length text - 3) text else text))))"

definition verdicts :: "json option set" where
  "verdicts = {Some (JStr (u ''YES'')), Some (JStr (u ''NO'')), Some (JStr (u ''UNCERTAIN''))}"

text \<open>One round of the validation loop: \<open>v.get("vote")\<close> exists on a dict only.\<close>

fun normalize_vote :: "json \<Rightarrow> py_exception + json" where
  "normalize_vote (JDict d) =
     Inr (JDict (if map_of d (u ''vote'') \<notin> verdicts
                 then AList.update (u ''vote'') (JStr (u ''UNCERTAIN'')) d else d))"
| "normalize_vote v =
     Inl (PyExc AttributeError
            (u [CHR 0x27] @ type_name v @ u [CHR 0x27] @ u '' object has no attribute ''
               @ u [CHR 0x27] @ u ''get'' @ u [CHR 0x27]))"

fun normalize_votes :: "json list \<Rightarrow> json list \<Rightarrow> py_exception + json list" where
  "normalize_votes result [] = Inr result"
| "normalize_votes result (v # vs) =
     (case normalize_vote v of
        Inl e \<Rightarrow> Inl e
      | Inr v' \<Rightarrow> normalize_votes (result @ [v']) vs)"

definition synthetic_vote :: "nat \<Rightarrow> ustr \<Rightarrow> json" where
  "synthetic_vote num summary =
     JDict [(u ''property_num'', JInt (int num)),
            (u ''vote'', JStr (u ''UNCERTAIN'')),
            (u ''confidence'', JFloat (Finite 0)),
            (u ''summary'', JStr summary)]"

function pad_votes :: "json list \<Rightarrow> nat \<Rightarrow> json list" where
  "pad_votes result expected_count =
     (if length result < expected_count
      then pad_votes
             (result @ [synthetic_vote (length result + 1)
                          (u ''No response from agent for this property'')])
             expected_count
      else result)"
  by pat_completeness auto
termination
  by (relation "measure (\<lambda>(result, n). n - length result)") auto

declare pad_votes.simps [simp del]

text \<open>\<open>parse_batch_votes(text, expected_count)\<close>. \<open>json.loads\<close> is a parameter: it
  returns the decoded value or raises, and the function catches JSONDecodeError only, so
  any other exception of the decoder (RecursionError on deep nesting, ValueError on an
  over-long integer) leaves the function. The expected count is a length (\<open>len(batch)\<close> at
  the call site).\<close>

definition parse_batch_votes ::
  "(ustr \<Rightarrow> py_exception + json) \<Rightarrow> ustr \<Rightarrow> nat \<Rightarrow> py_exception + json list" where
  "parse_batch_votes loads raw expected_count =
     (case unfence raw of
        Inl e \<Rightarrow> Inl e
      | Inr text \<Rightarrow>
          (case loads text of
             Inl e \<Rightarrow>
               if exc_class_of e = JSONDecodeError
               then Inr (map (\<lambda>i. synthetic_vote (i + 1) (u ''Failed to parse agent response''))
                           [0 ..< expected_count])
               else Inl e
           | Inr decoded \<Rightarrow>
               (let votes = (case decoded of JList vs \<Rightarrow> vs | _ \<Rightarrow> [decoded]) in
                case normalize_votes [] votes of
                  Inl e \<Rightarrow> Inl e
                | Inr result \<Rightarrow> Inr (take expected_count (pad_votes result expected_count)))))"

text \<open>Predicates used to state the parser's properties.\<close>

fun is_dict :: "json \<Rightarrow> bool" where
  "is_dict (JDict d) = True"
| "is_dict v = False"

definition has_verdict :: "json \<Rightarrow> bool" where
  "has_verdict v = (case v of JDict d \<Rightarrow> map_of d (u ''vote'') \<in> verdicts | _ \<Rightarrow> False)"

text \<open>The cleaned reply makes \<open>json.loads\<close> raise JSONDecodeError.\<close>

definition decode_fails :: "(ustr \<Rightarrow> py_exception + json) \<Rightarrow> ustr \<Rightarrow> bool" where
  "decode_fails loads raw =
     (case unfence raw of
        Inl e \<Rightarrow> False
      | Inr text \<Rightarrow> (case loads text of Inl e \<Rightarrow> exc_class_of e = JSONDecodeError | Inr v \<Rightarrow> False))"

text \<open>The elements the validation loop runs over, when the cleaned reply decodes.\<close>

definition decoded_votes :: "(ustr \<Rightarrow> py_exception + json) \<Rightarrow> ustr \<Rightarrow> json list option" where
  "decoded_votes loads raw =
     (case unfence raw of
        Inl e \<Rightarrow> None
      | Inr text \<Rightarrow>
          (case loads text of
             Inl e \<Rightarrow> None
           | Inr decoded \<Rightarrow> Some (case decoded of JList vs \<Rightarrow> vs | _ \<Rightarrow> [decoded])))"

text \<open>A reply that fails to decode with JSONDecodeError, or decodes to an object or to an
  array of objects.\<close>

definition object_reply :: "(ustr \<Rightarrow> py_exception + json) \<Rightarrow> ustr \<Rightarrow> bool" where
  "object_reply loads raw =
     (decode_fails loads raw \<or>
      (case decoded_votes loads raw of None \<Rightarrow> False | Some vs \<Rightarrow> list_all is_dict vs))"

definition raises :: "exc_class \<Rightarrow> py_exception + 'a \<Rightarrow> bool" where
  "raises c r = (case r of Inl e \<Rightarrow> exc_class_of e = c | Inr x \<Rightarrow> False)"

text \<open>The behaviour of \<open>json.loads\<close> at the texts used in examples; any other text is
  taken not to be JSON.\<close>

definition loads_fixture :: "ustr \<Rightarrow> py_exception + json" where
  \<open>loads_fixture s =
     (if s = u ''[1]'' then Inr (JList [JInt 1])
      else if s = u ''{}'' then Inr (JDict [])
      else if s = u ''[{"vote": "YES", "confidence": 5}]''
        then Inr (JList [JDict [(u ''vote'', JStr (u ''YES'')), (u ''confidence'', JInt 5)]])
      else if s = u ''[{"vote": "NO", "confidence": 0.5}]''
        then Inr (JList [JDict [(u ''vote'', JStr (u ''NO'')), (u ''confidence'', JFloat (Finite (1 / 2)))]])
      else Inl (PyExc JSONDecodeError (u ''Expecting value'')))\<close>

section \<open>Batch evaluation\<close>

text \<open>
  A persona is identified by its name, the key of the vote maps; its prompt and emoji only
  feed the request and the log. \<open>AGENTS\<close> lists the registered personas in order.
\<close>

definition AGENTS :: "ustr list" where
  "AGENTS = [u ''Financial Advisor'', u ''Barrio Scout'', u ''Building Inspector'', u ''Deal Shark'']"

text \<open>A listing, with the fields the analyzer reads; an absent key is \<open>None\<close>.\<close>

record candidate =
  cid :: ustr
  scraped_at :: "ustr option"
  address :: "ustr option"
  title :: "ustr option"

text \<open>The body of the \<open>try\<close> block after the parse: \<open>all_votes[j][agent_name] = vote\<close>
  and the read of \<open>vote["vote"]\<close> for the log, for each vote in turn.\<close>

fun read_vote :: "json \<Rightarrow> py_exception + json" where
  "read_vote (JDict d) =
     (case map_of d (u ''vote'') of
        None \<Rightarrow> Inl (PyExc KeyError (u [CHR 0x27] @ u ''vote'' @ u [CHR 0x27]))
      | Some x \<Rightarrow> Inr x)"
| "read_vote v = Inl (PyExc TypeError (u ''vote is not a dict''))"

fun assign_votes :: "ustr \<Rightarrow> json list \<Rightarrow> pydict list \<Rightarrow> py_exception + pydict list" where
  "assign_votes agent_name [] all_votes = Inr all_votes"
| "assign_votes agent_name (vote # votes) [] = Inl (PyExc KeyError (u ''index''))"
| "assign_votes agent_name (vote # votes) (m # all_votes) =
     (case read_vote vote of
        Inl e \<Rightarrow> Inl e
      | Inr x \<Rightarrow>
          (case assign_votes agent_name votes all_votes of
             Inl e \<Rightarrow> Inl e
           | Inr rest \<Rightarrow> Inr (AList.update agent_name vote m # rest)))"

text \<open>The \<open>except Exception\<close> handler: it overwrites the persona's entry for every index
  of the batch, so what the \<open>try\<close> block assigned before raising is not visible.\<close>

fun agent_error_votes :: "ustr \<Rightarrow> py_exception \<Rightarrow> nat \<Rightarrow> pydict list \<Rightarrow> pydict list" where
  "agent_error_votes agent_name e j [] = []"
| "agent_error_votes agent_name e j (m # all_votes) =
     AList.update agent_name (synthetic_vote (j + 1) (u ''Agent error: '' @ exc_str e)) m
       # agent_error_votes agent_name e (j + 1) all_votes"

text \<open>One round of the loop over the personas. \<open>call\<close> is what \<open>call_llm\<close> does for this
  persona on this batch: it raises or returns the raw reply.\<close>

definition try_agent ::
  "(ustr \<Rightarrow> py_exception + json) \<Rightarrow> (ustr \<Rightarrow> py_exception + ustr) \<Rightarrow> nat \<Rightarrow> ustr \<Rightarrow> pydict list
     \<Rightarrow> py_exception + pydict list" where
  "try_agent loads call n agent_name all_votes =
     (case call agent_name of
        Inl e \<Rightarrow> Inl e
      | Inr raw \<Rightarrow>
          (case parse_batch_votes loads raw n of
             Inl e \<Rightarrow> Inl e
           | Inr votes \<Rightarrow> assign_votes agent_name votes all_votes))"

definition agent_round ::
  "(ustr \<Rightarrow> py_exception + json) \<Rightarrow> (ustr \<Rightarrow> py_exception + ustr) \<Rightarrow> nat \<Rightarrow> ustr \<Rightarrow> pydict list
     \<Rightarrow> pydict list" where
  "agent_round loads call n agent_name all_votes =
     (case try_agent loads call n agent_name all_votes of
        Inl e \<Rightarrow> agent_error_votes agent_name e 0 all_votes
      | Inr voted \<Rightarrow> voted)"

definition collect_votes ::
  "(ustr \<Rightarrow> py_exception + json) \<Rightarrow> (ustr \<Rightarrow> py_exception + ustr) \<Rightarrow> ustr list \<Rightarrow> nat \<Rightarrow> pydict list" where
  "collect_votes loads call agents n =
     fold (agent_round loads call n) agents (replicate n [])"

subsection \<open>Decision and scores\<close>

fun vote_values :: "json list \<Rightarrow> py_exception + json list" where
  "vote_values [] = Inr []"
| "vote_values (v # vs) =
     (case read_vote v of
        Inl e \<Rightarrow> Inl e
      | Inr x \<Rightarrow> (case vote_values vs of Inl e \<Rightarrow> Inl e | Inr xs \<Rightarrow> Inr (x # xs)))"

text \<open>The decision of \<open>evaluate_batch\<close>; the vote map has one value per entry, so
  \<open>len(votes)\<close> is the number of vote values.\<close>

definition decide :: "json list \<Rightarrow> ustr" where
  "decide values =
     (let no_count = count_list values (JStr (u ''NO''));
          yes_count = count_list values (JStr (u ''YES''))
      in if no_count = length values \<and> length values > 0 then u ''SKIP''
         else if no_count \<ge> 3 \<and> yes_count = 0 then u ''SKIP''
         else u ''SEND'')"

text \<open>\<open>sum(score_map.get(v["vote"], 0) for v in votes.values())\<close>: a list or a dict
  is not hashable and makes the lookup raise.\<close>

fun score_of :: "json \<Rightarrow> py_exception + int" where
  "score_of (JList xs) = Inl (PyExc TypeError (u ''unhashable type''))"
| "score_of (JDict d) = Inl (PyExc TypeError (u ''unhashable type''))"
| "score_of x =
     Inr (if x = JStr (u ''YES'') then 2 else if x = JStr (u ''UNCERTAIN'') then 1 else 0)"

fun agent_score :: "json list \<Rightarrow> py_exception + int" where
  "agent_score [] = Inr 0"
| "agent_score (x # xs) =
     (case score_of x of
        Inl e \<Rightarrow> Inl e
      | Inr a \<Rightarrow> (case agent_score xs of Inl e \<Rightarrow> Inl e | Inr b \<Rightarrow> Inr (a + b)))"

subsection \<open>Mean confidence\<close>

text \<open>
  The arithmetic of \<open>sum(...) / max(len(votes), 1)\<close> and \<open>round(..., 2)\<close>. Integers are
  exact. What a floating-point operation returns depends on IEEE rounding (and, for
  \<open>sum\<close>, on the interpreter's summation) and is a parameter; which operations raise is
  fixed: converting an int to a float raises OverflowError when the int is too large, and
  so does the true division of ints whose quotient is too large. Ints up to \<open>2^53\<close> in
  magnitude convert exactly. A list length always converts.
\<close>

record arith =
  big_int_to_float :: "int \<Rightarrow> pyfloat option"
  float_add :: "pyfloat \<Rightarrow> pyfloat \<Rightarrow> pyfloat"
  float_div_count :: "pyfloat \<Rightarrow> nat \<Rightarrow> pyfloat"
  big_int_div_count :: "int \<Rightarrow> nat \<Rightarrow> pyfloat option"
  float_round2 :: "pyfloat \<Rightarrow> pyfloat"

definition float_of_int :: "arith \<Rightarrow> int \<Rightarrow> py_exception + pyfloat" where
  "float_of_int ar i =
     (if \<bar>i\<bar> \<le> 2 ^ 53 then Inr (Finite (of_int i))
      else (case big_int_to_float ar i of
              None \<Rightarrow> Inl (PyExc OverflowError (u ''int too large to convert to float''))
            | Some f \<Rightarrow> Inr f))"

text \<open>\<open>i / n\<close> for an int and a list length.\<close>

definition int_true_div :: "arith \<Rightarrow> int \<Rightarrow> nat \<Rightarrow> py_exception + pyfloat" where
  "int_true_div ar i n =
     (if \<bar>i\<bar> \<le> 2 ^ 53 then Inr (float_div_count ar (Finite (of_int i)) n)
      else (case big_int_div_count ar i n of
              None \<Rightarrow> Inl (PyExc OverflowError (u ''integer division result too large for a float''))
            | Some f \<Rightarrow> Inr f))"

text \<open>The running total of \<open>sum\<close>: an int until the first float is added.\<close>

datatype total = IntTotal int | FloatTotal pyfloat

fun add_number :: "arith \<Rightarrow> total \<Rightarrow> json \<Rightarrow> py_exception + total" where
  "add_number ar (IntTotal a) (JInt b) = Inr (IntTotal (a + b))"
| "add_number ar (IntTotal a) (JBool b) = Inr (IntTotal (a + (if b then 1 else 0)))"
| "add_number ar (IntTotal a) (JFloat f) =
     (case float_of_int ar a of
        Inl e \<Rightarrow> Inl e
      | Inr x \<Rightarrow> Inr (FloatTotal (float_add ar x f)))"
| "add_number ar (FloatTotal x) (JInt b) =
     (case float_of_int ar b of
        Inl e \<Rightarrow> Inl e
      | Inr y \<Rightarrow> Inr (FloatTotal (float_add ar x y)))"
| "add_number ar (FloatTotal x) (JBool b) =
     Inr (FloatTotal (float_add ar x (Finite (if b then 1 else 0))))"
| "add_number ar (FloatTotal x) (JFloat f) = Inr (FloatTotal (float_add ar x f))"
| "add_number ar acc v = Inl (PyExc TypeError (u ''unsupported operand type(s) for +''))"

text \<open>\<open>v.get("confidence", 0.5)\<close>.\<close>

fun confidence_of :: "json \<Rightarrow> py_exception + json" where
  "confidence_of (JDict d) =
     Inr (case map_of d (u ''confidence'') of None \<Rightarrow> JFloat (Finite (1 / 2)) | Some c \<Rightarrow> c)"
| "confidence_of v = Inl (PyExc AttributeError (u ''get''))"

text \<open>\<open>sum(v.get("confidence", 0.5) for v in votes.values())\<close>, from the left.\<close>

fun sum_confidence :: "arith \<Rightarrow> total \<Rightarrow> json list \<Rightarrow> py_exception + total" where
  "sum_confidence ar acc [] = Inr acc"
| "sum_confidence ar acc (v # vs) =
     (case confidence_of v of
        Inl e \<Rightarrow> Inl e
      | Inr c \<Rightarrow>
          (case add_number ar acc c of
             Inl e \<Rightarrow> Inl e
           | Inr acc' \<Rightarrow> sum_confidence ar acc' vs))"

definition confidence_avg :: "arith \<Rightarrow> json list \<Rightarrow> py_exception + pyfloat" where
  "confidence_avg ar votes =
     (case sum_confidence ar (IntTotal 0) votes of
        Inl e \<Rightarrow> Inl e
      | Inr (IntTotal i) \<Rightarrow> int_true_div ar i (max (length votes) 1)
      | Inr (FloatTotal x) \<Rightarrow> Inr (float_div_count ar x (max (length votes) 1)))"

subsection \<open>Results\<close>

definition build_result :: "arith \<Rightarrow> ustr \<Rightarrow> candidate \<Rightarrow> pydict \<Rightarrow> py_exception + json" where
  "build_result ar now prop votes =
     (case vote_values (map snd votes) of
        Inl e \<Rightarrow> Inl e
      | Inr values \<Rightarrow>
          (case agent_score values of
             Inl e \<Rightarrow> Inl e
           | Inr score \<Rightarrow>
               (case confidence_avg ar (map snd votes) of
                  Inl e \<Rightarrow> Inl e
                | Inr avg \<Rightarrow>
                    Inr (JDict
                      [(u ''property_id'', JStr (cid prop)),
                       (u ''decision'', JStr (decide values)),
                       (u ''votes'', JDict votes),
                       (u ''score'', JInt score),
                       (u ''yes_count'', JInt (int (count_list values (JStr (u ''YES''))))),
                       (u ''no_count'', JInt (int (count_list values (JStr (u ''NO''))))),
                       (u ''confidence_avg'', JFloat (float_round2 ar avg)),
                       (u ''evaluated_at'', JStr now)]))))"

fun build_results ::
  "arith \<Rightarrow> ustr \<Rightarrow> candidate list \<Rightarrow> pydict list \<Rightarrow> py_exception + json list" where
  "build_results ar now [] all_votes = Inr []"
| "build_results ar now (prop # batch) [] = Inl (PyExc KeyError (u ''index''))"
| "build_results ar now (prop # batch) (votes # all_votes) =
     (case build_result ar now prop votes of
        Inl e \<Rightarrow> Inl e
      | Inr r \<Rightarrow>
          (case build_results ar now batch all_votes of
             Inl e \<Rightarrow> Inl e
           | Inr rs \<Rightarrow> Inr (r # rs)))"

text \<open>\<open>evaluate_batch(batch)\<close>, with the registered personas, the decoder, the personas'
  calls, the arithmetic and the clock as parameters.\<close>

definition evaluate_batch ::
  "arith \<Rightarrow> (ustr \<Rightarrow> py_exception + json) \<Rightarrow> (ustr \<Rightarrow> py_exception + ustr) \<Rightarrow> ustr list \<Rightarrow>
     ustr \<Rightarrow> candidate list \<Rightarrow> py_exception + json list" where
  "evaluate_batch ar loads call agents now batch =
     build_results ar now batch (collect_votes loads call agents (length batch))"


text \<open>\<open>v.get("confidence")\<close>.\<close>

definition confidence_field :: "json \<Rightarrow> json option" where
  "confidence_field v = (case v of JDict d \<Rightarrow> map_of d (u ''confidence'') | _ \<Rightarrow> None)"

text \<open>A number within \<open>[0, 1]\<close>, and a vote whose confidence is one.\<close>

fun unit_number :: "json \<Rightarrow> bool" where
  "unit_number (JInt i) = (0 \<le> i \<and> i \<le> 1)"
| "unit_number (JFloat (Finite r)) = (0 \<le> r \<and> r \<le> 1)"
| "unit_number v = False"

definition confidence_in_unit :: "json \<Rightarrow> bool" where
  "confidence_in_unit v =
     (case confidence_field v of None \<Rightarrow> False | Some c \<Rightarrow> is_dict v \<and> unit_number c)"

text \<open>A reply whose decoded elements all carry a confidence within \<open>[0, 1]\<close>, or that
  fails to decode with JSONDecodeError.\<close>

definition unit_confidence_reply :: "(ustr \<Rightarrow> py_exception + json) \<Rightarrow> ustr \<Rightarrow> bool" where
  "unit_confidence_reply loads raw =
     (decode_fails loads raw \<or>
      (case decoded_votes loads raw of None \<Rightarrow> False | Some vs \<Rightarrow> list_all confidence_in_unit vs))"

text \<open>A float within \<open>[0, 1]\<close>.\<close>

fun unit_float :: "pyfloat \<Rightarrow> bool" where
  "unit_float (Finite r) = (0 \<le> r \<and> r \<le> 1)"
| "unit_float f = False"

text \<open>
  What the bound on the mean needs of the floating-point operations, and what IEEE
  doubles give: the sum of a float within \<open>[0, k]\<close> and one within \<open>[0, 1]\<close> is a float
  within \<open>[0, k + 1]\<close> for \<open>k < 2^53\<close>, the quotient of a float within \<open>[0, n]\<close> by \<open>n\<close> is
  within \<open>[0, 1]\<close>, and rounding to two decimals keeps a float within \<open>[0, 1]\<close> there
  (rounding to nearest is monotone and exact at these integers).
\<close>

definition unit_arith :: "arith \<Rightarrow> bool" where
  "unit_arith ar \<longleftrightarrow>
     (\<forall>x y k. 0 \<le> x \<and> x \<le> real k \<and> k < 2 ^ 53 \<and> 0 \<le> y \<and> y \<le> 1 \<longrightarrow>
        (\<exists>z. float_add ar (Finite x) (Finite y) = Finite z \<and> 0 \<le> z \<and> z \<le> real k + 1)) \<and>
     (\<forall>x n. 0 \<le> x \<and> x \<le> real n \<and> 0 < n \<longrightarrow> unit_float (float_div_count ar (Finite x) n)) \<and>
     (\<forall>f. unit_float f \<longrightarrow> unit_float (float_round2 ar f))"

text \<open>A running total within \<open>[0, k]\<close>.\<close>

fun total_within :: "nat \<Rightarrow> total \<Rightarrow> bool" where
  "total_within k (IntTotal a) = (0 \<le> a \<and> a \<le> int k)"
| "total_within k (FloatTotal (Finite x)) = (0 \<le> x \<and> x \<le> real k)"
| "total_within k t = False"

text \<open>An arithmetic without rounding, for examples.\<close>

definition ideal_arith :: arith where
  "ideal_arith =
     \<lparr>big_int_to_float = (\<lambda>i. Some (Finite (of_int i))),
      float_add = (\<lambda>x y. case x of Finite a \<Rightarrow> (case y of Finite b \<Rightarrow> Finite (a + b) | g \<Rightarrow> g) | f \<Rightarrow> f),
      float_div_count = (\<lambda>x n. case x of Finite a \<Rightarrow> Finite (a / real n) | f \<Rightarrow> f),
      big_int_div_count = (\<lambda>i n. Some (Finite (of_int i / real n))),
      float_round2 = (\<lambda>x. x)\<rparr>"





text \<open>Replies used in examples: the second persona's call raises, the others answer
  with text that is not JSON.\<close>

definition call_fixture :: "ustr \<Rightarrow> py_exception + ustr" where
  "call_fixture a =
     (if a = u ''Barrio Scout'' then Inl (PyExc HTTPError (u ''500 Server Error''))
      else Inr (u ''not json''))"

definition flat_fixture :: candidate where
  "flat_fixture = \<lparr>cid = u ''a1'', scraped_at = None, address = Some (u ''Carrer de Mallorca 1''),
                    title = Some (u ''Piso'')\<rparr>"

section \<open>Splitting a report\<close>

text \<open>The separator of \<open>_split_message\<close> and \<open>send_notifications\<close>: two line feeds, twelve
  times U+2501, two line feeds.\<close>

definition separator :: ustr where
  "separator = [10, 10] @ replicate 12 9473 @ [10, 10]"

text \<open>The loop of \<open>_split_message\<close> over the parts; an empty string is false in Python.\<close>

definition candidate_of :: "ustr \<Rightarrow> ustr \<Rightarrow> ustr" where
  "candidate_of current part = (if current \<noteq> [] then current @ separator @ part else part)"

fun pack :: "nat \<Rightarrow> ustr list \<Rightarrow> ustr \<Rightarrow> ustr list \<Rightarrow> ustr list" where
  "pack max_len messages current [] =
     (if current \<noteq> [] then messages @ [current] else messages)"
| "pack max_len messages current (part # parts) =
     (if length (candidate_of current part) > max_len \<and> current \<noteq> []
      then pack max_len (messages @ [current]) part parts
      else pack max_len messages (candidate_of current part) parts)"

definition split_message :: "ustr \<Rightarrow> nat \<Rightarrow> ustr list" where
  "split_message text max_len =
     (if length text \<le> max_len then [text]
      else pack max_len [] [] (split text separator))"

text \<open>The report of one city in \<open>send_notifications\<close>: the header followed by the blocks
  joined by the separator.\<close>

definition full_msg :: "ustr \<Rightarrow> ustr list \<Rightarrow> ustr" where
  "full_msg header property_blocks = header @ join separator property_blocks"

text \<open>What reaches \<open>send_telegram\<close>: every chunk after the first gets the continuation
  header in front.\<close>

fun handed_from :: "ustr \<Rightarrow> nat \<Rightarrow> ustr list \<Rightarrow> ustr list" where
  "handed_from continuation j [] = []"
| "handed_from continuation j (part # parts) =
     (if j > 0 then continuation @ part else part) # handed_from continuation (j + 1) parts"

definition handed_to_sink :: "ustr \<Rightarrow> ustr \<Rightarrow> ustr list \<Rightarrow> ustr list" where
  "handed_to_sink header continuation property_blocks =
     handed_from continuation 0 (split_message (full_msg header property_blocks) 4096)"

text \<open>The continuation header of \<open>send_notifications\<close> for a city label.\<close>

definition continuation_header :: "ustr \<Rightarrow> ustr" where
  "continuation_header label =
     [127466, 127480] @ u '' <b>'' @ label @ u ''</b> ('' @ [1087, 1088, 1086, 1076] @ u ''.)''
       @ [10, 10]"

text \<open>A run of parts that may form one chunk: it fits the maximum length once joined,
  or it is a single part.\<close>

definition fits :: "nat \<Rightarrow> ustr list \<Rightarrow> bool" where
  "fits max_len r \<longleftrightarrow> length (join separator r) \<le> max_len \<or> length r = 1"

text \<open>A chunk list that cuts a list of parts at part boundaries only: the chunks are the
  joins of consecutive non-empty runs of the parts.\<close>

definition whole_parts :: "nat \<Rightarrow> ustr list \<Rightarrow> ustr list \<Rightarrow> bool" where
  "whole_parts max_len parts chunks \<longleftrightarrow>
     (\<exists>runs. concat runs = parts \<and> [] \<notin> set runs \<and> chunks = map (join separator) runs \<and>
        (\<forall>r\<in>set runs. fits max_len r))"

section \<open>Evaluator client\<close>

text \<open>
  One HTTP exchange as the client sees it: \<open>requests.post\<close> raises, or a response comes
  back with a status code and with what reading the reply text out of its body gives (the
  text, or the exception of \<open>response.json()\<close> or of the indexing).
\<close>

datatype http_outcome =
    PostRaised py_exception
  | Response nat "py_exception + ustr"

record config =
  ANALYZER_PROVIDER :: ustr
  ANTHROPIC_API_KEY :: "ustr option"
  GEMINI_API_KEY :: "ustr option"

text \<open>What a call did: its outcome (\<open>Inr None\<close> is a return of \<open>None\<close>), the sleeps in
  seconds in order, and the number of requests sent.\<close>

record call_trace =
  outcome :: "py_exception + ustr option"
  sleeps :: "nat list"
  requests :: nat

text \<open>Python truth of an environment variable: unset and empty are both false.\<close>

definition is_set :: "ustr option \<Rightarrow> bool" where
  "is_set k = (case k of None \<Rightarrow> False | Some s \<Rightarrow> s \<noteq> [])"

text \<open>\<open>response.raise_for_status()\<close> followed by reading the reply text.\<close>

definition read_response :: "nat \<Rightarrow> (py_exception + ustr) \<Rightarrow> py_exception + ustr option" where
  "read_response status body =
     (if 400 \<le> status \<and> status < 600 then Inl (PyExc HTTPError (u ''HTTP error''))
      else (case body of Inl e \<Rightarrow> Inl e | Inr reply \<Rightarrow> Inr (Some reply)))"

text \<open>The loop \<open>for attempt in range(3)\<close> of \<open>call_anthropic\<close>, over the attempts still to
  make; \<open>post k\<close> is the outcome of the request number \<open>k\<close> of this call. Leaving the loop
  without a return gives \<open>None\<close>.\<close>

fun anthropic_loop :: "(nat \<Rightarrow> http_outcome) \<Rightarrow> nat list \<Rightarrow> nat list \<Rightarrow> nat \<Rightarrow> call_trace" where
  "anthropic_loop post [] slept sent =
     \<lparr>outcome = Inr None, sleeps = slept, requests = sent\<rparr>"
| "anthropic_loop post (attempt # attempts) slept sent =
     (case post sent of
        PostRaised e \<Rightarrow> \<lparr>outcome = Inl e, sleeps = slept, requests = sent + 1\<rparr>
      | Response status body \<Rightarrow>
          if status = 529 \<and> attempt < 2
          then anthropic_loop post attempts (slept @ [15 * (attempt + 1)]) (sent + 1)
          else \<lparr>outcome = read_response status body, sleeps = slept, requests = sent + 1\<rparr>)"

definition call_anthropic :: "config \<Rightarrow> (nat \<Rightarrow> http_outcome) \<Rightarrow> call_trace" where
  "call_anthropic cfg post =
     (if \<not> is_set (ANTHROPIC_API_KEY cfg)
      then \<lparr>outcome = Inl (PyExc ValueError (u ''ANTHROPIC_API_KEY not set'')), sleeps = [],
             requests = 0\<rparr>
      else anthropic_loop post [0 ..< 3] [] 0)"

definition call_gemini :: "config \<Rightarrow> (nat \<Rightarrow> http_outcome) \<Rightarrow> call_trace" where
  "call_gemini cfg post =
     (if \<not> is_set (GEMINI_API_KEY cfg)
      then \<lparr>outcome = Inl (PyExc ValueError (u ''GEMINI_API_KEY not set'')), sleeps = [],
             requests = 0\<rparr>
      else (case post 0 of
              PostRaised e \<Rightarrow> \<lparr>outcome = Inl e, sleeps = [], requests = 1\<rparr>
            | Response status body \<Rightarrow>
                \<lparr>outcome = read_response status body, sleeps = [], requests = 1\<rparr>))"

text \<open>\<open>str.lower\<close> on the Basic Latin and Latin-1 letters; the model leaves every other
  code point unchanged.\<close>

definition lower_cp :: "nat \<Rightarrow> nat" where
  "lower_cp c =
     (if (65 \<le> c \<and> c \<le> 90) \<or> (192 \<le> c \<and> c \<le> 222 \<and> c \<noteq> 215) then c + 32 else c)"

definition lower :: "ustr \<Rightarrow> ustr" where
  "lower s = map lower_cp s"

definition call_llm :: "config \<Rightarrow> (nat \<Rightarrow> http_outcome) \<Rightarrow> call_trace" where
  "call_llm cfg post =
     (if lower (ANALYZER_PROVIDER cfg) = u ''anthropic'' then call_anthropic cfg post
      else call_gemini cfg post)"

text \<open>The exchange whose response is the overloaded status of the Anthropic service.\<close>

definition is_overloaded :: "http_outcome \<Rightarrow> bool" where
  "is_overloaded r = (case r of PostRaised e \<Rightarrow> False | Response status body \<Rightarrow> status = 529)"

text \<open>What a single exchange gives when it is not retried.\<close>

definition single_result :: "http_outcome \<Rightarrow> py_exception + ustr option" where
  "single_result r = (case r of PostRaised e \<Rightarrow> Inl e | Response status body \<Rightarrow> read_response status body)"

definition anthropic_cfg :: config where
  "anthropic_cfg = \<lparr>ANALYZER_PROVIDER = u ''anthropic'', ANTHROPIC_API_KEY = Some (u ''key''),
                     GEMINI_API_KEY = None\<rparr>"

definition gemini_cfg :: config where
  "gemini_cfg = \<lparr>ANALYZER_PROVIDER = u ''gemini'', ANTHROPIC_API_KEY = None,
                  GEMINI_API_KEY = Some (u ''key'')\<rparr>"

text \<open>A service that answers 529 twice and then replies.\<close>

definition busy_twice :: "nat \<Rightarrow> http_outcome" where
  "busy_twice k = (if k < 2 then Response 529 (Inl (PyExc KeyError (u ''content'')))
                   else Response 200 (Inr (u ''[]'')))"

definition always_busy :: "nat \<Rightarrow> http_outcome" where
  "always_busy k = Response 529 (Inl (PyExc KeyError (u ''content'')))"

section \<open>Progress store\<close>

text \<open>
  The progress file by what reading it does: it is absent; or opening it, decoding its
  bytes or \<open>json.load\<close> raises the given exception (JSONDecodeError on text that is not
  JSON, UnicodeDecodeError on bytes that are not text, and so on); or \<open>json.load\<close>
  returns the given document.
\<close>

datatype file_state = Missing | Unloadable py_exception | Doc json

definition empty_record :: json where
  "empty_record =
     JDict [(u ''analyzed_ids'', JList []), (u ''results'', JList []), (u ''last_run'', JStr [])]"

text \<open>\<open>load_analyzed()\<close>: only JSONDecodeError is caught.\<close>

fun load_analyzed :: "file_state \<Rightarrow> py_exception + json" where
  "load_analyzed Missing = Inr empty_record"
| "load_analyzed (Unloadable e) =
     (if exc_class_of e = JSONDecodeError then Inr empty_record else Inl e)"
| "load_analyzed (Doc v) = Inr v"

text \<open>
  A file that a \<open>json.dump\<close> which raised left behind: \<open>open(..., "w")\<close> has emptied it and
  the dump wrote a proper prefix of an object's text, which is not JSON.
\<close>

definition truncated :: file_state where
  "truncated = Unloadable (PyExc JSONDecodeError (u ''Expecting value''))"

text \<open>
  What \<open>open(ANALYZED_FILE, "w")\<close> followed by \<open>json.dump\<close> does with a document: the
  document is written in full, or opening raises (OSError on a read-only file, for one)
  and the file is as before, or the dump raises after the file was emptied
  (UnicodeEncodeError on a lone surrogate, OSError on a full disk).
\<close>

datatype write_outcome = Written | OpenRaises py_exception | DumpRaises py_exception

text \<open>
  \<open>save_analyzed(data)\<close> at the time \<open>now\<close> on the file \<open>file\<close>: the file afterwards and the
  exception raised, if any. The item assignment comes first and raises on anything but a
  dict, before the file is opened. \<open>json_dump\<close> is the outcome of the write for each
  document; a document written in full is the document \<open>json.load\<close> reads back.
\<close>

fun save_analyzed ::
  "(json \<Rightarrow> write_outcome) \<Rightarrow> ustr \<Rightarrow> json \<Rightarrow> file_state \<Rightarrow> file_state \<times> py_exception option" where
  "save_analyzed json_dump now (JDict d) file =
     (case json_dump (JDict (AList.update (u ''last_run'') (JStr now) d)) of
        Written \<Rightarrow> (Doc (JDict (AList.update (u ''last_run'') (JStr now) d)), None)
      | OpenRaises e \<Rightarrow> (file, Some e)
      | DumpRaises e \<Rightarrow> (truncated, Some e))"
| "save_analyzed json_dump now (JList xs) file =
     (file, Some (PyExc TypeError (u ''list indices must be integers or slices, not str'')))"
| "save_analyzed json_dump now v file =
     (file, Some (PyExc TypeError
        (u [CHR 0x27] @ type_name v @ u [CHR 0x27] @ u '' object does not support item assignment'')))"

section \<open>Intake filter\<close>

definition DAYS_TO_ANALYZE :: int where
  "DAYS_TO_ANALYZE = 4"

text \<open>Naive datetimes are counted in microseconds; \<open>timedelta(days=d)\<close>.\<close>

definition timedelta_days :: "int \<Rightarrow> int" where
  "timedelta_days d = d * 86400000000"

text \<open>\<open>get_unanalyzed(properties, analyzed_ids)\<close> at the time \<open>now\<close>.
  \<open>datetime.fromisoformat\<close> is a parameter, \<open>None\<close> where it raises ValueError; the
  timestamps are the naive ones the scraper writes.\<close>

fun get_unanalyzed ::
  "(ustr \<Rightarrow> int option) \<Rightarrow> int \<Rightarrow> candidate list \<Rightarrow> json set \<Rightarrow> candidate list" where
  "get_unanalyzed fromisoformat now [] analyzed_ids = []"
| "get_unanalyzed fromisoformat now (p # properties) analyzed_ids =
     (if JStr (cid p) \<in> analyzed_ids
      then get_unanalyzed fromisoformat now properties analyzed_ids
      else if (case scraped_at p of None \<Rightarrow> [] | Some s \<Rightarrow> s) \<noteq> [] \<and>
              (case fromisoformat (case scraped_at p of None \<Rightarrow> [] | Some s \<Rightarrow> s) of
                 None \<Rightarrow> False
               | Some t \<Rightarrow> t < now - timedelta_days DAYS_TO_ANALYZE)
      then get_unanalyzed fromisoformat now properties analyzed_ids
      else p # get_unanalyzed fromisoformat now properties analyzed_ids)"

definition BLACKLISTED_ZONES :: "ustr list" where
  "BLACKLISTED_ZONES =
     [u ''Raval'', u ''El Raval'',
      u ''Poble Sec'', u ''Poble-sec'', u ''El Poble Sec'', u ''El Poble-sec'',
      u ''G'' @ [243] @ u ''tico'', u ''G'' @ [242] @ u ''tic'',
      u ''Barri G'' @ [242] @ u ''tic'', u ''Barrio G'' @ [243] @ u ''tico'']"

text \<open>\<open>sub in text\<close> for strings.\<close>

fun contains :: "ustr \<Rightarrow> ustr \<Rightarrow> bool" where
  "contains [] sub = (sub = [])"
| "contains (c # cs) sub = (take (length sub) (c # cs) = sub \<or> contains cs sub)"

definition is_blacklisted :: "candidate \<Rightarrow> bool" where
  "is_blacklisted p =
     (let text = lower ((case address p of None \<Rightarrow> [] | Some a \<Rightarrow> a) @ u '' '' @
                        (case title p of None \<Rightarrow> [] | Some t \<Rightarrow> t))
      in list_ex (\<lambda>zone. contains text (lower zone)) BLACKLISTED_ZONES)"

text \<open>A timestamp parser used in examples: it accepts nothing.\<close>

definition no_timestamp :: "ustr \<Rightarrow> int option" where
  "no_timestamp s = None"

definition stamped_fixture :: candidate where
  "stamped_fixture = \<lparr>cid = u ''c3'', scraped_at = Some (u ''yesterday''),
                       address = Some (u ''Carrer de Mallorca 1''), title = Some (u ''Piso'')\<rparr>"

text \<open>A record whose only id is a lone surrogate (the JSON text \<open>"\\ud800"\<close> loads to it),
  and the behaviour of \<open>json.dump\<close> into a UTF-8 file at the documents used in examples:
  it cannot encode that id.\<close>

definition surrogate_record :: pydict where
  "surrogate_record =
     [(u ''analyzed_ids'', JList [JStr [55296]]), (u ''results'', JList []),
      (u ''last_run'', JStr (u ''2026-01-01T10:00:00''))]"

definition dump_fixture :: "json \<Rightarrow> write_outcome" where
  "dump_fixture v =
     (case v of
        JDict d \<Rightarrow>
          if map_of d (u ''analyzed_ids'') = Some (JList [JStr [55296]])
          then DumpRaises (PyExc UnicodeEncodeError (u ''surrogates not allowed''))
          else Written
      | _ \<Rightarrow> Written)"

text \<open>\<open>save_analyzed(load_analyzed())\<close> at the time \<open>now\<close>: the file afterwards and the
  exception raised, if any.\<close>

definition save_load :: "(json \<Rightarrow> write_outcome) \<Rightarrow> ustr \<Rightarrow> file_state \<Rightarrow> file_state \<times> py_exception option" where
  "save_load json_dump now file =
     (case load_analyzed file of
        Inl e \<Rightarrow> (file, Some e)
      | Inr data \<Rightarrow> save_analyzed json_dump now data file)"

text \<open>A progress file whose bytes are not UTF-8 text.\<close>

definition binary_fixture :: file_state where
  "binary_fixture = Unloadable (PyExc UnicodeDecodeError (u ''invalid start byte''))"

section \<open>The run\<close>

definition BATCH_SIZE :: nat where
  "BATCH_SIZE = 5"

text \<open>What a run takes from outside: the decoder, the outcome of a write, the
  floating-point arithmetic, each persona's call on a batch, the clock (read once) and the
  timestamp parser.\<close>

record world =
  json_loads :: "ustr \<Rightarrow> py_exception + json"
  json_dump :: "json \<Rightarrow> write_outcome"
  numbers :: arith
  llm :: "candidate list \<Rightarrow> ustr \<Rightarrow> py_exception + ustr"
  clock :: int
  clock_iso :: ustr
  fromisoformat :: "ustr \<Rightarrow> int option"

text \<open>The state of \<open>main\<close>: the progress file, the set \<open>analyzed_ids\<close> (kept as a list
  without repetition; Python leaves the order of \<open>list(analyzed_ids)\<close> open), the list
  object \<open>all_results\<close>, \<open>to_send\<close>, \<open>skipped\<close>, the batches handed to \<open>evaluate_batch\<close> so far
  and the exception that ended the run, if any.\<close>

record run_state =
  stored :: file_state
  analyzed_ids :: "json list"
  all_results :: json
  to_send :: "json list"
  skipped :: nat
  evaluated :: "candidate list list"
  raised :: "py_exception option"

text \<open>\<open>data.get(key, [])\<close> on what \<open>load_analyzed\<close> returned.\<close>

fun get_or_empty :: "json \<Rightarrow> ustr \<Rightarrow> py_exception + json" where
  "get_or_empty (JDict d) key = Inr (case map_of d key of None \<Rightarrow> JList [] | Some v \<Rightarrow> v)"
| "get_or_empty v key =
     Inl (PyExc AttributeError
            (u [CHR 0x27] @ type_name v @ u [CHR 0x27] @ u '' object has no attribute ''
               @ u [CHR 0x27] @ u ''get'' @ u [CHR 0x27]))"

fun hashable :: "json \<Rightarrow> bool" where
  "hashable (JList xs) = False"
| "hashable (JDict d) = False"
| "hashable v = True"

text \<open>\<open>set(x)\<close>: the elements of a list, the characters of a string, the keys of a dict.\<close>

fun py_set :: "json \<Rightarrow> py_exception + json list" where
  "py_set (JList xs) =
     (if list_all hashable xs then Inr (remdups xs)
      else Inl (PyExc TypeError (u ''unhashable type'')))"
| "py_set (JStr s) = Inr (remdups (map (\<lambda>c. JStr [c]) s))"
| "py_set (JDict d) = Inr (remdups (map (\<lambda>kv. JStr (fst kv)) d))"
| "py_set v =
     Inl (PyExc TypeError (u [CHR 0x27] @ type_name v @ u [CHR 0x27] @ u '' object is not iterable''))"

definition set_add :: "json \<Rightarrow> json list \<Rightarrow> json list" where
  "set_add x s = (if x \<in> set s then s else s @ [x])"

text \<open>\<open>all_results.append(result)\<close>.\<close>

fun py_append :: "json \<Rightarrow> json \<Rightarrow> py_exception + json" where
  "py_append (JList xs) x = Inr (JList (xs @ [x]))"
| "py_append v x =
     Inl (PyExc AttributeError
            (u [CHR 0x27] @ type_name v @ u [CHR 0x27] @ u '' object has no attribute ''
               @ u [CHR 0x27] @ u ''append'' @ u [CHR 0x27]))"

text \<open>The body of \<open>for result in results\<close>.\<close>

definition absorb_result :: "json \<Rightarrow> run_state \<Rightarrow> py_exception + run_state" where
  "absorb_result result st =
     (case py_append (all_results st) result of
        Inl e \<Rightarrow> Inl e
      | Inr appended \<Rightarrow>
          (case result of
             JDict d \<Rightarrow>
               (case map_of d (u ''property_id'') of
                  None \<Rightarrow> Inl (PyExc KeyError (u ''property_id''))
                | Some pid \<Rightarrow>
                    (case map_of d (u ''decision'') of
                       None \<Rightarrow> Inl (PyExc KeyError (u ''decision''))
                     | Some decision \<Rightarrow>
                         Inr (if decision = JStr (u ''SEND'')
                              then st\<lparr>all_results := appended,
                                      analyzed_ids := set_add pid (analyzed_ids st),
                                      to_send := to_send st @ [result]\<rparr>
                              else st\<lparr>all_results := appended,
                                      analyzed_ids := set_add pid (analyzed_ids st),
                                      skipped := skipped st + 1\<rparr>)))
           | _ \<Rightarrow> Inl (PyExc TypeError (u ''result is not a dict''))))"

fun absorb_results :: "json list \<Rightarrow> run_state \<Rightarrow> py_exception + run_state" where
  "absorb_results [] st = Inr st"
| "absorb_results (result # results) st =
     (case absorb_result result st of
        Inl e \<Rightarrow> Inl e
      | Inr st' \<Rightarrow> absorb_results results st')"

text \<open>\<open>to_analyze[batch_idx:batch_idx + BATCH_SIZE]\<close> for the successive indices.\<close>

function batches_of :: "nat \<Rightarrow> 'a list \<Rightarrow> 'a list list" where
  "batches_of n xs =
     (if n = 0 \<or> xs = [] then [] else take n xs # batches_of n (drop n xs))"
  by pat_completeness auto
termination
  by (relation "measure (\<lambda>(n, xs). length xs)") simp_all

declare batches_of.simps [simp del]

text \<open>The loop over the batches: evaluate, absorb the results, save. An exception ends
  the run and leaves the file as the last save left it.\<close>

fun run_batches :: "world \<Rightarrow> candidate list list \<Rightarrow> run_state \<Rightarrow> run_state" where
  "run_batches w [] st = st"
| "run_batches w (batch # batches) st =
     (case evaluate_batch (numbers w) (json_loads w) (llm w batch) AGENTS (clock_iso w) batch of
        Inl e \<Rightarrow> st\<lparr>evaluated := evaluated st @ [batch], raised := Some e\<rparr>
      | Inr results \<Rightarrow>
          (case absorb_results results (st\<lparr>evaluated := evaluated st @ [batch]\<rparr>) of
             Inl e \<Rightarrow> st\<lparr>evaluated := evaluated st @ [batch], raised := Some e\<rparr>
           | Inr st' \<Rightarrow>
               (case save_analyzed (json_dump w) (clock_iso w)
                       (JDict [(u ''analyzed_ids'', JList (analyzed_ids st')),
                               (u ''results'', all_results st')]) (stored st') of
                  (written, Some e) \<Rightarrow> st'\<lparr>stored := written, raised := Some e\<rparr>
                | (written, None) \<Rightarrow> run_batches w batches (st'\<lparr>stored := written\<rparr>))))"

text \<open>\<open>main()\<close> up to the hand-over to \<open>send_notifications\<close>, on the listings
  \<open>load_properties\<close> returned and the progress file. The returns before the loop leave
  the file untouched.\<close>

definition main :: "config \<Rightarrow> world \<Rightarrow> candidate list \<Rightarrow> file_state \<Rightarrow> run_state" where
  "main cfg w properties file =
     (let start = \<lparr>stored = file, analyzed_ids = [], all_results = JList [], to_send = [],
                    skipped = 0, evaluated = [], raised = None\<rparr>;
          provider = lower (ANALYZER_PROVIDER cfg)
      in if provider = u ''anthropic'' \<and> \<not> is_set (ANTHROPIC_API_KEY cfg) then start
         else if provider = u ''gemini'' \<and> \<not> is_set (GEMINI_API_KEY cfg) then start
         else
           (case load_analyzed file of
              Inl e \<Rightarrow> start\<lparr>raised := Some e\<rparr>
            | Inr analyzed_data \<Rightarrow>
                (case get_or_empty analyzed_data (u ''analyzed_ids'') of
                   Inl e \<Rightarrow> start\<lparr>raised := Some e\<rparr>
                 | Inr ids_value \<Rightarrow>
                     (case py_set ids_value of
                        Inl e \<Rightarrow> start\<lparr>raised := Some e\<rparr>
                      | Inr ids \<Rightarrow>
                          (case get_or_empty analyzed_data (u ''results'') of
                             Inl e \<Rightarrow> start\<lparr>raised := Some e\<rparr>
                           | Inr results_value \<Rightarrow>
                               (let found = get_unanalyzed (fromisoformat w) (clock w) properties (set ids);
                                    blacklisted = filter is_blacklisted found;
                                    to_analyze = filter (\<lambda>p. \<not> is_blacklisted p) found;
                                    marked = fold (\<lambda>p s. set_add (JStr (cid p)) s) blacklisted ids;
                                    st = start\<lparr>analyzed_ids := marked, all_results := results_value\<rparr>
                                in if to_analyze = [] then st
                                   else run_batches w (batches_of BATCH_SIZE to_analyze) st))))))"

text \<open>A listing in an excluded zone, and the surroundings of an example run.\<close>

definition raval_fixture :: candidate where
  "raval_fixture = \<lparr>cid = u ''b7'', scraped_at = None, address = Some (u ''Carrer del Raval 12''),
                     title = Some (u ''Piso reformado'')\<rparr>"

definition world_fixture :: world where
  "world_fixture = \<lparr>json_loads = loads_fixture, json_dump = dump_fixture,
                     numbers = ideal_arith, llm = (\<lambda>batch. call_fixture), clock = 0,
                     clock_iso = u ''2026-01-02T10:00:00'', fromisoformat = no_timestamp\<rparr>"

text \<open>A text matches the exclusion list when it contains a zone name, both lower-cased.\<close>

definition matches_zone :: "ustr \<Rightarrow> bool" where
  "matches_zone s = list_ex (\<lambda>zone. contains (lower s) (lower zone)) BLACKLISTED_ZONES"

definition in_excluded_zone :: "candidate \<Rightarrow> bool" where
  "in_excluded_zone p =
     ((case address p of None \<Rightarrow> False | Some a \<Rightarrow> matches_zone a) \<or>
      (case title p of None \<Rightarrow> False | Some t \<Rightarrow> matches_zone t))"

text \<open>The credentials of the selected provider are set: \<open>main\<close> does not stop at once.\<close>

definition configured :: "config \<Rightarrow> bool" where
  "configured cfg =
     (\<not> (lower (ANALYZER_PROVIDER cfg) = u ''anthropic'' \<and> \<not> is_set (ANTHROPIC_API_KEY cfg)) \<and>
      \<not> (lower (ANALYZER_PROVIDER cfg) = u ''gemini'' \<and> \<not> is_set (GEMINI_API_KEY cfg)))"

text \<open>The set \<open>analyzed_ids\<close> as \<open>main\<close> builds it from the progress file.\<close>

definition loaded_ids :: "file_state \<Rightarrow> py_exception + json list" where
  "loaded_ids file =
     (case load_analyzed file of
        Inl e \<Rightarrow> Inl e
      | Inr analyzed_data \<Rightarrow>
          (case get_or_empty analyzed_data (u ''analyzed_ids'') of
             Inl e \<Rightarrow> Inl e
           | Inr ids_value \<Rightarrow> py_set ids_value))"

text \<open>The listings a run finds new (not analyzed, recent), before the exclusion list.\<close>

definition found_new :: "world \<Rightarrow> candidate list \<Rightarrow> file_state \<Rightarrow> candidate list" where
  "found_new w properties file =
     (case loaded_ids file of
        Inl e \<Rightarrow> []
      | Inr ids \<Rightarrow> get_unanalyzed (fromisoformat w) (clock w) properties (set ids))"

text \<open>A run state with the progress file left out.\<close>

definition besides_file :: "run_state \<Rightarrow> run_state" where
  "besides_file st = st\<lparr>stored := Missing\<rparr>"

section \<open>Properties of the response parser\<close>

lemmas parser_eval =
  object_reply_def decode_fails_def decoded_votes_def raises_def parse_batch_votes_def unfence_def
  strip_def is_space_def startswith_def endswith_def fence_def u_def loads_fixture_def Let_def
  split_def

lemma split_from_length: "length (split_from sep cur s) \<ge> 1"
  by (induction sep cur s rule: split_from.induct) auto

lemma split_from_starts:
  "sep \<noteq> [] \<Longrightarrow> take (length sep) s = sep \<Longrightarrow> \<exists>b rest. split_from sep cur s = cur # b # rest"
proof (cases s)
  case Nil
  assume "sep \<noteq> []" "take (length sep) s = sep"
  with Nil show ?thesis by simp
next
  case (Cons c cs)
  assume a: "sep \<noteq> []" "take (length sep) s = sep"
  have "length (split_from sep [] (drop (length sep) (c # cs))) \<ge> 1" by (rule split_from_length)
  then obtain b rest where "split_from sep [] (drop (length sep) (c # cs)) = b # rest"
    by (cases "split_from sep [] (drop (length sep) (c # cs))") auto
  with a Cons show ?thesis by simp
qed

lemma fence_ne: "fence \<noteq> []" by (simp add: fence_def u_def)

lemma unfence_total: "\<exists>t. unfence raw = Inr t"
proof (cases "startswith (strip raw) fence")
  case True
  then obtain b rest where "split (strip raw) fence = [] # b # rest"
    using split_from_starts[OF fence_ne, of "strip raw" "[]"] by (auto simp: startswith_def split_def)
  then show ?thesis using True by (simp add: unfence_def Let_def)
next
  case False
  then show ?thesis by (simp add: unfence_def Let_def)
qed

lemma pad_votes_eq:
  "pad_votes result n = result @ map (\<lambda>i. synthetic_vote (i + 1) (u ''No response from agent for this property'')) [length result ..< n]"
proof (induction result n rule: pad_votes.induct)
  case (1 result n)
  show ?case
  proof (cases "length result < n")
    case True
    then show ?thesis using 1 by (subst pad_votes.simps) (simp add: upt_conv_Cons)
  next
    case False
    then show ?thesis by (subst pad_votes.simps) simp
  qed
qed

lemma has_verdict_synthetic: "has_verdict (synthetic_vote i s)"
  by (simp add: has_verdict_def synthetic_vote_def verdicts_def u_def)

lemma normalize_vote_dict:
  "is_dict v \<Longrightarrow> \<exists>v'. normalize_vote v = Inr v' \<and> has_verdict v'"
  by (cases v) (auto simp: has_verdict_def update_conv' verdicts_def)

lemma normalize_votes_dicts:
  "list_all is_dict vs \<Longrightarrow> list_all has_verdict result \<Longrightarrow>
   \<exists>r. normalize_votes result vs = Inr r \<and> list_all has_verdict r \<and> length r = length result + length vs"
proof (induction vs arbitrary: result)
  case Nil
  then show ?case by simp
next
  case (Cons v vs)
  from Cons.prems obtain v' where v': "normalize_vote v = Inr v'" "has_verdict v'"
    using normalize_vote_dict by auto
  from Cons.prems v' have "list_all has_verdict (result @ [v'])" by simp
  with Cons.IH[of "result @ [v']"] Cons.prems v' show ?case by auto
qed

lemma length_pad_take: "length (take n (pad_votes r n)) = n"
  by (simp add: pad_votes_eq)

lemma has_verdict_pad_take: "list_all has_verdict r \<Longrightarrow> list_all has_verdict (take n (pad_votes r n))"
  by (auto simp: pad_votes_eq list_all_iff has_verdict_synthetic dest!: in_set_takeD)

lemma normalize_votes_nth:
  "normalize_votes result vs = Inr r \<Longrightarrow>
   length r = length result + length vs \<and> take (length result) r = result \<and>
   (\<forall>i<length vs. normalize_vote (vs ! i) = Inr (r ! (length result + i)))"
proof (induction vs arbitrary: result)
  case Nil
  then show ?case by simp
next
  case (Cons v vs)
  from Cons.prems obtain v' where v': "normalize_vote v = Inr v'"
    and rest: "normalize_votes (result @ [v']) vs = Inr r"
    by (auto split: sum.splits)
  from Cons.IH[OF rest] have len: "length r = length result + 1 + length vs"
    and pre: "take (length result + 1) r = result @ [v']"
    and nth: "\<forall>i<length vs. normalize_vote (vs ! i) = Inr (r ! (length result + 1 + i))"
    by simp_all
  have "take (length result) (take (length result + 1) r) = take (length result) (result @ [v'])"
    using pre by simp
  then have t: "take (length result) r = result" by (simp add: min_def)
  have "take (length result + 1) r ! length result = r ! length result"
    by (rule nth_take) simp
  moreover have "(result @ [v']) ! length result = v'" by simp
  ultimately have here: "r ! length result = v'" by (simp only: pre)
  have "normalize_vote ((v # vs) ! i) = Inr (r ! (length result + i))" if "i < length (v # vs)" for i
  proof (cases i)
    case 0
    then show ?thesis using v' here by simp
  next
    case (Suc j)
    then show ?thesis using nth that by simp
  qed
  then show ?case using len t by simp
qed

text \<open>
  Claim C1 (amended). For every raw reply whose cleaned text either makes \<open>json.loads\<close>
  raise JSONDecodeError or decodes to an object or to an array of objects,
  \<open>parse_batch_votes\<close> returns, without raising, exactly \<open>n\<close> votes, each with a verdict among
  YES, NO and UNCERTAIN; when decoding fails that way the result is the \<open>n\<close> synthetic
  UNCERTAIN votes whose summary reports the parse failure.
\<close>

theorem parse_batch_votes_objects:
  assumes "object_reply loads raw"
  shows "\<exists>votes. parse_batch_votes loads raw n = Inr votes \<and> length votes = n \<and>
           list_all has_verdict votes \<and>
           (decode_fails loads raw \<longrightarrow>
              votes = map (\<lambda>i. synthetic_vote (i + 1) (u ''Failed to parse agent response'')) [0 ..< n])"
proof -
  obtain cleaned where t: "unfence raw = Inr cleaned" using unfence_total by blast
  show ?thesis
  proof (cases "loads cleaned")
    case (Inl e)
    then have "exc_class_of e = JSONDecodeError"
      using assms t by (simp add: object_reply_def decode_fails_def decoded_votes_def)
    then show ?thesis using t Inl
      by (simp add: parse_batch_votes_def decode_fails_def list_all_iff has_verdict_synthetic)
  next
    case (Inr decoded)
    define votes where "votes = (case decoded of JList vs \<Rightarrow> vs | _ \<Rightarrow> [decoded])"
    have "list_all is_dict votes"
      using assms t Inr by (simp add: object_reply_def decode_fails_def decoded_votes_def votes_def)
    then obtain r where r: "normalize_votes [] votes = Inr r" "list_all has_verdict r"
      using normalize_votes_dicts[of votes "[]"] by auto
    have "parse_batch_votes loads raw n = Inr (take n (pad_votes r n))"
      using t Inr r by (simp add: parse_batch_votes_def votes_def Let_def)
    moreover have "\<not> decode_fails loads raw" using t Inr by (simp add: decode_fails_def)
    ultimately show ?thesis using r length_pad_take has_verdict_pad_take by simp
  qed
qed

text \<open>
  As stated for every reply, C1 fails: a reply that decodes to an array with an element
  that is not an object makes \<open>v.get\<close> raise AttributeError, which the function does
  not catch.
\<close>

theorem parse_batch_votes_raises_counterexample:
  "raises AttributeError (parse_batch_votes loads_fixture (u ''[1]'') 1)"
  by (simp add: parser_eval)

theorem parse_batch_votes_objects_witness:
  "object_reply loads_fixture (u ''```json{}```'') \<and>
   (\<exists>votes. parse_batch_votes loads_fixture (u ''```json{}```'') 2 = Inr votes \<and>
      length votes = 2 \<and> list_all has_verdict votes) \<and>
   object_reply loads_fixture (u ''not json'') \<and> decode_fails loads_fixture (u ''not json'') \<and>
   parse_batch_votes loads_fixture (u ''not json'') 2 =
     Inr [synthetic_vote 1 (u ''Failed to parse agent response''),
          synthetic_vote 2 (u ''Failed to parse agent response'')]"
proof -
  have h1: "object_reply loads_fixture (u ''```json{}```'')" by (simp add: parser_eval)
  have h2: "object_reply loads_fixture (u ''not json'')" by (simp add: parser_eval)
  have h3: "decode_fails loads_fixture (u ''not json'')" by (simp add: parser_eval)
  have e: "map (\<lambda>i. synthetic_vote (i + 1) (u ''Failed to parse agent response'')) [0 ..< 2]
           = [synthetic_vote 1 (u ''Failed to parse agent response''),
              synthetic_vote 2 (u ''Failed to parse agent response'')]"
    by (simp add: upt_rec numeral_2_eq_2)
  from parse_batch_votes_objects[OF h2, of 2] h3 e
  have p: "parse_batch_votes loads_fixture (u ''not json'') 2 =
     Inr [synthetic_vote 1 (u ''Failed to parse agent response''),
          synthetic_vote 2 (u ''Failed to parse agent response'')]" by auto
  from parse_batch_votes_objects[OF h1, of 2]
  have q: "\<exists>votes. parse_batch_votes loads_fixture (u ''```json{}```'') 2 = Inr votes \<and>
      length votes = 2 \<and> list_all has_verdict votes" by blast
  show ?thesis by (intro conjI h1 q h2 h3 p)
qed

section \<open>Properties of the decision\<close>





text \<open>With no registered persona the decision defaults to SEND, by the guard
  \<open>len(votes) > 0\<close>.\<close>

lemma decide_no_personas: "decide [] = u ''SEND''"
  by (simp add: decide_def)


section \<open>Properties of the vote maps\<close>







































text \<open>The decision is never taken on an empty vote map: the vote maps of \<open>evaluate_batch\<close>
  have one value per registered persona, four in all.\<close>

lemma vote_values_length: "vote_values vs = Inr xs \<Longrightarrow> length xs = length vs"
  by (induction vs arbitrary: xs) (auto split: sum.splits)

lemma vote_map_values:
  "map fst m = AGENTS \<Longrightarrow> vote_values (map snd m) = Inr values \<Longrightarrow> length values = 4"
proof -
  assume a: "map fst m = AGENTS" and v: "vote_values (map snd m) = Inr values"
  have "length m = length (map fst m)" by simp
  also have "\<dots> = 4" by (simp only: a) (simp add: AGENTS_def)
  finally show ?thesis using vote_values_length[OF v] by simp
qed


section \<open>Properties of the confidences\<close>

lemma confidence_in_unit_synthetic: "confidence_in_unit (synthetic_vote j s)"
  by (simp add: confidence_in_unit_def confidence_field_def synthetic_vote_def u_def)

lemma confidence_field_synthetic: "confidence_field (synthetic_vote j s) = Some (JFloat (Finite 0))"
  by (simp add: confidence_field_def synthetic_vote_def u_def)

lemma vote_confidence_keys: "u ''vote'' \<noteq> u ''confidence''"
  by (simp add: u_def)

lemma normalize_vote_keeps_confidence:
  "normalize_vote v = Inr v' \<Longrightarrow> confidence_field v' = confidence_field v \<and> is_dict v'"
  using vote_confidence_keys
  by (cases v) (auto simp: confidence_field_def update_conv')

lemma normalize_vote_confidence:
  "confidence_in_unit v \<Longrightarrow> \<exists>v'. normalize_vote v = Inr v' \<and> confidence_in_unit v'"
  using vote_confidence_keys
  by (cases v) (auto simp: confidence_in_unit_def confidence_field_def update_conv' split: option.splits)

lemma normalize_votes_confidence:
  "list_all confidence_in_unit vs \<Longrightarrow> list_all confidence_in_unit result \<Longrightarrow>
   \<exists>r. normalize_votes result vs = Inr r \<and> list_all confidence_in_unit r"
proof (induction vs arbitrary: result)
  case Nil
  then show ?case by simp
next
  case (Cons v vs)
  from Cons.prems obtain v' where v': "normalize_vote v = Inr v'" "confidence_in_unit v'"
    using normalize_vote_confidence by auto
  from Cons.prems v' have "list_all confidence_in_unit (result @ [v'])" by simp
  with Cons.IH[of "result @ [v']"] Cons.prems v' show ?case by auto
qed

lemma confidence_pad_take:
  "list_all confidence_in_unit r \<Longrightarrow> list_all confidence_in_unit (take n (pad_votes r n))"
  by (auto simp: pad_votes_eq list_all_iff confidence_in_unit_synthetic dest!: in_set_takeD)

lemma parse_batch_votes_confidence:
  assumes "unit_confidence_reply loads raw"
  shows "\<exists>votes. parse_batch_votes loads raw n = Inr votes \<and> list_all confidence_in_unit votes"
proof -
  obtain cleaned where t: "unfence raw = Inr cleaned" using unfence_total by blast
  show ?thesis
  proof (cases "loads cleaned")
    case (Inl e)
    then have "exc_class_of e = JSONDecodeError"
      using assms t by (simp add: unit_confidence_reply_def decode_fails_def decoded_votes_def)
    then show ?thesis using t Inl
      by (simp add: parse_batch_votes_def list_all_iff confidence_in_unit_synthetic)
  next
    case (Inr decoded)
    define votes where "votes = (case decoded of JList vs \<Rightarrow> vs | _ \<Rightarrow> [decoded])"
    have "list_all confidence_in_unit votes"
      using assms t Inr
      by (simp add: unit_confidence_reply_def decode_fails_def decoded_votes_def votes_def)
    then obtain r where r: "normalize_votes [] votes = Inr r" "list_all confidence_in_unit r"
      using normalize_votes_confidence[of votes "[]"] by auto
    have "parse_batch_votes loads raw n = Inr (take n (pad_votes r n))"
      using t Inr r by (simp add: parse_batch_votes_def votes_def Let_def)
    then show ?thesis using r confidence_pad_take by simp
  qed
qed

text \<open>What the parser returns for a reply that decodes: the first \<open>n\<close> decoded elements,
  each with its verdict normalised and nothing else changed, then padding.\<close>

lemma parse_batch_votes_decoded:
  assumes "parse_batch_votes loads raw n = Inr votes" "decoded_votes loads raw = Some els"
  shows "\<forall>i<n. (i < length els \<longrightarrow> normalize_vote (els ! i) = Inr (votes ! i)) \<and>
               (length els \<le> i \<longrightarrow>
                  votes ! i = synthetic_vote (i + 1) (u ''No response from agent for this property''))"
proof -
  from assms(2) obtain cleaned decoded where t: "unfence raw = Inr cleaned"
    and d: "loads cleaned = Inr decoded"
    and els: "els = (case decoded of JList vs \<Rightarrow> vs | _ \<Rightarrow> [decoded])"
    by (auto simp: decoded_votes_def split: sum.splits)
  from assms(1) t d els obtain r where r: "normalize_votes [] els = Inr r"
    and v: "votes = take n (pad_votes r n)"
    by (auto simp: parse_batch_votes_def Let_def split: sum.splits)
  from normalize_votes_nth[OF r] have len: "length r = length els"
    and nth: "\<forall>i<length els. normalize_vote (els ! i) = Inr (r ! i)" by simp_all
  show ?thesis
  proof (intro allI impI conjI)
    fix i assume i: "i < n" "i < length els"
    then have "votes ! i = r ! i" using v len by (simp add: pad_votes_eq nth_append)
    then show "normalize_vote (els ! i) = Inr (votes ! i)" using nth i by simp
  next
    fix i assume i: "i < n" "length els \<le> i"
    then have "[length els ..< n] ! (i - length els) = i" by simp
    then show "votes ! i = synthetic_vote (i + 1) (u ''No response from agent for this property'')"
      using i v len by (simp add: pad_votes_eq nth_append)
  qed
qed

lemma parse_batch_votes_keeps:
  assumes "parse_batch_votes loads raw n = Inr votes" "decoded_votes loads raw = Some els"
    "i < n" "i < length els"
  shows "confidence_field (votes ! i) = confidence_field (els ! i)"
  using parse_batch_votes_decoded[OF assms(1,2)] assms(3,4) normalize_vote_keeps_confidence
  by blast

lemma parse_batch_votes_decode_fails:
  "decode_fails loads raw \<Longrightarrow>
   parse_batch_votes loads raw n =
     Inr (map (\<lambda>i. synthetic_vote (i + 1) (u ''Failed to parse agent response'')) [0 ..< n])"
  by (auto simp: decode_fails_def parse_batch_votes_def split: sum.splits)

text \<open>Any other exception of the decoder leaves the parser.\<close>

lemma parse_batch_votes_decoder_error:
  "unfence raw = Inr cleaned \<Longrightarrow> loads cleaned = Inl e \<Longrightarrow> exc_class_of e \<noteq> JSONDecodeError \<Longrightarrow>
   parse_batch_votes loads raw n = Inl e"
  by (simp add: parse_batch_votes_def)

subsection \<open>The mean\<close>

lemma confidence_value:
  "confidence_in_unit v \<Longrightarrow> \<exists>c. confidence_of v = Inr c \<and> unit_number c"
  by (cases v) (auto simp: confidence_in_unit_def confidence_field_def split: option.splits)

lemma float_of_int_small: "\<bar>i\<bar> \<le> 2 ^ 53 \<Longrightarrow> float_of_int ar i = Inr (Finite (of_int i))"
  by (simp add: float_of_int_def)

lemma unit_arith_add:
  assumes "unit_arith ar" "0 \<le> x" "x \<le> real k" "k < 2 ^ 53" "0 \<le> y" "y \<le> 1"
  shows "\<exists>z. float_add ar (Finite x) (Finite y) = Finite z \<and> 0 \<le> z \<and> z \<le> real k + 1"
proof -
  from assms(1) have "\<forall>x y k. 0 \<le> x \<and> x \<le> real k \<and> k < 2 ^ 53 \<and> 0 \<le> y \<and> y \<le> 1 \<longrightarrow>
        (\<exists>z. float_add ar (Finite x) (Finite y) = Finite z \<and> 0 \<le> z \<and> z \<le> real k + 1)"
    unfolding unit_arith_def by (rule conjunct1)
  then show ?thesis using assms(2-6) by simp
qed

lemma unit_arith_div:
  assumes "unit_arith ar" "0 \<le> x" "x \<le> real n" "0 < n"
  shows "unit_float (float_div_count ar (Finite x) n)"
proof -
  from assms(1) have "\<forall>x n. 0 \<le> x \<and> x \<le> real n \<and> 0 < n \<longrightarrow> unit_float (float_div_count ar (Finite x) n)"
    unfolding unit_arith_def by (elim conjE)
  then show ?thesis using assms(2-4) by simp
qed

lemma unit_arith_round:
  assumes "unit_arith ar" "unit_float f"
  shows "unit_float (float_round2 ar f)"
proof -
  from assms(1) have "\<forall>f. unit_float f \<longrightarrow> unit_float (float_round2 ar f)"
    unfolding unit_arith_def by (elim conjE)
  then show ?thesis using assms(2) by simp
qed

lemma add_number_within:
  assumes "unit_arith ar" "unit_number c" "total_within k acc" "k < 2 ^ 53"
  shows "\<exists>t. add_number ar acc c = Inr t \<and> total_within (Suc k) t"
proof (cases acc)
  case (IntTotal a)
  with assms(3) have a: "0 \<le> a" "a \<le> int k" by simp_all
  then have small: "\<bar>a\<bar> \<le> 2 ^ 53" using assms(4) by simp
  show ?thesis
  proof (cases c)
    case (JInt b)
    then show ?thesis using IntTotal a assms(2) by simp
  next
    case (JFloat f)
    with assms(2) obtain r where r: "f = Finite r" "0 \<le> r" "r \<le> 1" by (cases f) simp_all
    have "0 \<le> real_of_int a" "real_of_int a \<le> real k" using a by simp_all
    from unit_arith_add[OF assms(1) this assms(4) r(2,3)]
    obtain z where "float_add ar (Finite (of_int a)) (Finite r) = Finite z" "0 \<le> z" "z \<le> real k + 1"
      by blast
    then show ?thesis using IntTotal JFloat r float_of_int_small[OF small, of ar] by simp
  qed (use assms(2) in simp_all)
next
  case (FloatTotal g)
  with assms(3) obtain x where x: "g = Finite x" "0 \<le> x" "x \<le> real k" by (cases g) simp_all
  show ?thesis
  proof (cases c)
    case (JInt b)
    with assms(2) have b: "0 \<le> b" "b \<le> 1" by simp_all
    then have "\<bar>b\<bar> \<le> 2 ^ 53" by simp
    then have fb: "float_of_int ar b = Inr (Finite (of_int b))" by (rule float_of_int_small)
    have "0 \<le> real_of_int b" "real_of_int b \<le> 1" using b by simp_all
    from unit_arith_add[OF assms(1) x(2,3) assms(4) this]
    obtain z where "float_add ar (Finite x) (Finite (of_int b)) = Finite z" "0 \<le> z" "z \<le> real k + 1"
      by blast
    then show ?thesis using FloatTotal JInt x fb by simp
  next
    case (JFloat f)
    with assms(2) obtain r where r: "f = Finite r" "0 \<le> r" "r \<le> 1" by (cases f) simp_all
    from unit_arith_add[OF assms(1) x(2,3) assms(4) r(2,3)]
    obtain z where "float_add ar (Finite x) (Finite r) = Finite z" "0 \<le> z" "z \<le> real k + 1"
      by blast
    then show ?thesis using FloatTotal JFloat x r by simp
  qed (use assms(2) in simp_all)
qed

lemma sum_confidence_within:
  assumes "unit_arith ar"
  shows "list_all confidence_in_unit vs \<Longrightarrow> total_within k acc \<Longrightarrow> k + length vs \<le> 2 ^ 53 \<Longrightarrow>
         \<exists>t. sum_confidence ar acc vs = Inr t \<and> total_within (k + length vs) t"
proof (induction vs arbitrary: k acc)
  case Nil
  then show ?case by simp
next
  case (Cons v vs)
  from Cons.prems(1) obtain c where c: "confidence_of v = Inr c" "unit_number c"
    using confidence_value by auto
  from Cons.prems(3) have k: "k < 2 ^ 53" by simp
  from add_number_within[OF assms c(2) Cons.prems(2) k]
  obtain t where t: "add_number ar acc c = Inr t" "total_within (Suc k) t" by blast
  from Cons.prems have "list_all confidence_in_unit vs" "Suc k + length vs \<le> 2 ^ 53" by simp_all
  from Cons.IH[OF this(1) t(2) this(2)]
  obtain t' where "sum_confidence ar t vs = Inr t'" "total_within (Suc k + length vs) t'" by blast
  then show ?case using c t by simp
qed

lemma confidence_avg_unit:
  assumes "unit_arith ar" "list_all confidence_in_unit vs" "length vs \<le> 2 ^ 53"
  shows "\<exists>m. confidence_avg ar vs = Inr m \<and> unit_float m"
proof -
  let ?n = "max (length vs) 1"
  have "total_within 0 (IntTotal 0)" by simp
  from sum_confidence_within[OF assms(1,2) this] assms(3)
  obtain t where t: "sum_confidence ar (IntTotal 0) vs = Inr t" "total_within (length vs) t" by auto
  show ?thesis
  proof (cases t)
    case (IntTotal a)
    with t(2) have a: "0 \<le> a" "a \<le> int (length vs)" by simp_all
    then have small: "\<bar>a\<bar> \<le> 2 ^ 53" using assms(3) by simp
    have "0 \<le> real_of_int a" "real_of_int a \<le> real ?n" using a by simp_all
    then have "unit_float (float_div_count ar (Finite (of_int a)) ?n)"
      using unit_arith_div[OF assms(1), of "of_int a" ?n] by simp
    then show ?thesis using t(1) IntTotal small by (simp add: confidence_avg_def int_true_div_def)
  next
    case (FloatTotal g)
    with t(2) obtain x where x: "g = Finite x" "0 \<le> x" "x \<le> real (length vs)" by (cases g) simp_all
    then have "x \<le> real ?n" by simp
    then have "unit_float (float_div_count ar (Finite x) ?n)"
      using unit_arith_div[OF assms(1) x(2), of ?n] by simp
    then show ?thesis using t(1) FloatTotal x by (simp add: confidence_avg_def)
  qed
qed

lemma unit_arith_ideal: "unit_arith ideal_arith"
proof -
  have "unit_float (Finite (x / real n))" if "0 \<le> x" "x \<le> real n" "0 < n" for x n
    using that by (simp add: divide_le_eq_1)
  then show ?thesis by (simp add: unit_arith_def ideal_arith_def)
qed

text \<open>
  Claim C9 (amended). Neither the parser nor the orchestrator validates the confidence of
  a decoded vote: whenever the reply decodes and the parser returns, each of the first \<open>n\<close>
  decoded votes is returned with the confidence the reply supplied (or with none, if it
  supplied none), and every vote past them is padding; every synthetic vote (padding,
  parse failure, agent error) carries exactly the float \<open>0.0\<close>. Hence for every reply
  whose decoded votes all carry an int or a finite float within \<open>[0, 1]\<close> as confidence
  (or that fails to decode), every vote of the parser's output does too; and the mean
  confidence of fewer than \<open>2^53\<close> such votes is a float within \<open>[0, 1]\<close>, before and
  after rounding to two decimals, provided floating-point addition and division round as
  \<open>unit_arith\<close> says.
\<close>

theorem confidence_within_unit:
  "(\<forall>votes els. parse_batch_votes loads raw n = Inr votes \<longrightarrow> decoded_votes loads raw = Some els \<longrightarrow>
      (\<forall>i<n. (i < length els \<longrightarrow> confidence_field (votes ! i) = confidence_field (els ! i)) \<and>
              (length els \<le> i \<longrightarrow>
                 votes ! i = synthetic_vote (i + 1) (u ''No response from agent for this property'')))) \<and>
   (decode_fails loads raw \<longrightarrow>
      parse_batch_votes loads raw n =
        Inr (map (\<lambda>i. synthetic_vote (i + 1) (u ''Failed to parse agent response'')) [0 ..< n])) \<and>
   confidence_field (synthetic_vote j s) = Some (JFloat (Finite 0)) \<and>
   (unit_confidence_reply loads raw \<longrightarrow>
      (\<exists>votes. parse_batch_votes loads raw n = Inr votes \<and> list_all confidence_in_unit votes)) \<and>
   (unit_arith ar \<longrightarrow> list_all confidence_in_unit vs \<longrightarrow> length vs < 2 ^ 53 \<longrightarrow>
      (\<exists>m. confidence_avg ar vs = Inr m \<and> unit_float m \<and> unit_float (float_round2 ar m)))"
proof (intro conjI allI impI)
  fix votes els i
  assume p: "parse_batch_votes loads raw n = Inr votes" "decoded_votes loads raw = Some els" and i: "i < n"
  show "confidence_field (votes ! i) = confidence_field (els ! i)" if "i < length els"
    using p i that by (rule parse_batch_votes_keeps)
  show "votes ! i = synthetic_vote (i + 1) (u ''No response from agent for this property'')"
    if "length els \<le> i"
    using parse_batch_votes_decoded[OF p] i that by simp
next
  assume "decode_fails loads raw"
  then show "parse_batch_votes loads raw n =
        Inr (map (\<lambda>i. synthetic_vote (i + 1) (u ''Failed to parse agent response'')) [0 ..< n])"
    by (rule parse_batch_votes_decode_fails)
next
  show "confidence_field (synthetic_vote j s) = Some (JFloat (Finite 0))"
    by (rule confidence_field_synthetic)
next
  assume "unit_confidence_reply loads raw"
  then show "\<exists>votes. parse_batch_votes loads raw n = Inr votes \<and> list_all confidence_in_unit votes"
    by (rule parse_batch_votes_confidence)
next
  assume a: "unit_arith ar" "list_all confidence_in_unit vs" "length vs < 2 ^ 53"
  then have "length vs \<le> 2 ^ 53" by simp
  from confidence_avg_unit[OF a(1,2) this] obtain m where m: "confidence_avg ar vs = Inr m" "unit_float m"
    by blast
  then show "\<exists>m. confidence_avg ar vs = Inr m \<and> unit_float m \<and> unit_float (float_round2 ar m)"
    using unit_arith_round[OF a(1)] by blast
qed

text \<open>
  As stated for every reply, C9 fails: the confidence of a decoded vote is passed through
  unchanged, whatever it is.
\<close>

theorem confidence_unchecked_counterexample:
  \<open>parse_batch_votes loads_fixture (u ''[{"vote": "YES", "confidence": 5}]'') 1 =
     Inr [JDict [(u ''vote'', JStr (u ''YES'')), (u ''confidence'', JInt 5)]] \<and>
   \<not> confidence_in_unit (JDict [(u ''vote'', JStr (u ''YES'')), (u ''confidence'', JInt 5)])\<close>
  by (simp add: parser_eval confidence_in_unit_def confidence_field_def verdicts_def pad_votes.simps)

theorem confidence_within_unit_witness:
  \<open>unit_confidence_reply loads_fixture (u ''[{"vote": "NO", "confidence": 0.5}]'') \<and>
   unit_arith ideal_arith \<and>
   decoded_votes loads_fixture (u ''[{"vote": "NO", "confidence": 0.5}]'') =
     Some [JDict [(u ''vote'', JStr (u ''NO'')), (u ''confidence'', JFloat (Finite (1 / 2)))]] \<and>
   (\<exists>votes. parse_batch_votes loads_fixture (u ''[{"vote": "NO", "confidence": 0.5}]'') 2 = Inr votes \<and>
      list_all confidence_in_unit votes \<and>
      confidence_field (votes ! 0) = Some (JFloat (Finite (1 / 2))) \<and>
      votes ! 1 = synthetic_vote 2 (u ''No response from agent for this property'')) \<and>
   list_all confidence_in_unit
     [JDict [(u ''vote'', JStr (u ''NO'')), (u ''confidence'', JFloat (Finite (1 / 2)))],
      synthetic_vote 2 (u ''No response from agent for this property'')] \<and>
   (\<exists>m. confidence_avg ideal_arith
          [JDict [(u ''vote'', JStr (u ''NO'')), (u ''confidence'', JFloat (Finite (1 / 2)))],
           synthetic_vote 2 (u ''No response from agent for this property'')] = Inr m \<and>
        unit_float m \<and> unit_float (float_round2 ideal_arith m))\<close>
proof -
  let ?raw = \<open>u ''[{"vote": "NO", "confidence": 0.5}]''\<close>
  let ?v = "JDict [(u ''vote'', JStr (u ''NO'')), (u ''confidence'', JFloat (Finite (1 / 2)))]"
  let ?vs = "[?v, synthetic_vote 2 (u ''No response from agent for this property'')]"
  have h1: "unit_confidence_reply loads_fixture ?raw"
    by (simp add: unit_confidence_reply_def confidence_in_unit_def confidence_field_def parser_eval)
  have h2: "unit_arith ideal_arith" by (rule unit_arith_ideal)
  have h3: "decoded_votes loads_fixture ?raw = Some [?v]" by (simp add: parser_eval)
  have h4: "list_all confidence_in_unit ?vs"
    by (simp add: confidence_in_unit_def confidence_field_def synthetic_vote_def u_def)
  have h5: "length ?vs < 2 ^ 53" by simp
  note t = confidence_within_unit[of loads_fixture ?raw 2 0 "[]" ideal_arith ?vs]
  from t h1 obtain votes where votes: "parse_batch_votes loads_fixture ?raw 2 = Inr votes"
      "list_all confidence_in_unit votes"
    by blast
  from t have "\<forall>votes els. parse_batch_votes loads_fixture ?raw 2 = Inr votes \<longrightarrow>
      decoded_votes loads_fixture ?raw = Some els \<longrightarrow>
      (\<forall>i<2. (i < length els \<longrightarrow> confidence_field (votes ! i) = confidence_field (els ! i)) \<and>
              (length els \<le> i \<longrightarrow>
                 votes ! i = synthetic_vote (i + 1) (u ''No response from agent for this property'')))"
    by (rule conjunct1)
  with votes(1) h3 have k: "\<forall>i<2. (i < length [?v] \<longrightarrow> confidence_field (votes ! i) = confidence_field ([?v] ! i)) \<and>
              (length [?v] \<le> i \<longrightarrow>
                 votes ! i = synthetic_vote (i + 1) (u ''No response from agent for this property''))"
    by blast
  have c0: "confidence_field ([?v] ! 0) = Some (JFloat (Finite (1 / 2)))"
    by (simp add: confidence_field_def u_def)
  from k have "(0::nat) < 2 \<longrightarrow> (0 < length [?v] \<longrightarrow> confidence_field (votes ! 0) = confidence_field ([?v] ! 0)) \<and>
              (length [?v] \<le> 0 \<longrightarrow>
                 votes ! 0 = synthetic_vote (0 + 1) (u ''No response from agent for this property''))"
    by (rule spec)
  then have "confidence_field (votes ! 0) = confidence_field ([?v] ! 0)" by simp
  then have k0: "confidence_field (votes ! 0) = Some (JFloat (Finite (1 / 2)))"
    by (simp only: c0)
  from k have "(1::nat) < 2 \<longrightarrow> (1 < length [?v] \<longrightarrow> confidence_field (votes ! 1) = confidence_field ([?v] ! 1)) \<and>
              (length [?v] \<le> 1 \<longrightarrow>
                 votes ! 1 = synthetic_vote (1 + 1) (u ''No response from agent for this property''))"
    by (rule spec)
  then have k1: "votes ! 1 = synthetic_vote 2 (u ''No response from agent for this property'')"
    by (simp add: numeral_2_eq_2)
  have p: "\<exists>votes. parse_batch_votes loads_fixture ?raw 2 = Inr votes \<and>
      list_all confidence_in_unit votes \<and>
      confidence_field (votes ! 0) = Some (JFloat (Finite (1 / 2))) \<and>
      votes ! 1 = synthetic_vote 2 (u ''No response from agent for this property'')"
    using votes k0 k1 by (intro exI[of _ votes] conjI)
  from t h2 h4 h5 have m: "\<exists>m. confidence_avg ideal_arith ?vs = Inr m \<and>
        unit_float m \<and> unit_float (float_round2 ideal_arith m)"
    by (elim conjE) simp
  show ?thesis by (intro conjI h1 h2 h3 p h4 m)
qed

section \<open>Properties of the report splitting\<close>

lemma split_from_no_mark:
  "x \<in> set sep \<Longrightarrow> x \<notin> set p \<Longrightarrow> split_from sep cur p = [cur @ p]"
proof (induction p arbitrary: cur)
  case Nil
  then show ?case by simp
next
  case (Cons c cs)
  have "take (length sep) (c # cs) \<noteq> sep"
  proof
    assume "take (length sep) (c # cs) = sep"
    then have "set sep \<subseteq> set (c # cs)" by (metis set_take_subset)
    with Cons.prems show False by auto
  qed
  then show ?case using Cons by simp
qed

lemma split_from_at_separator:
  assumes "x \<notin> set p" "x \<notin> set pre"
  shows "split_from (pre @ x # post) cur (p @ (pre @ x # post) @ rest) =
         (cur @ p) # split_from (pre @ x # post) [] rest"
  using assms(1)
proof (induction p arbitrary: cur)
  case Nil
  let ?sep = "pre @ x # post"
  obtain c cs where cs: "?sep @ rest = c # cs" by (cases "?sep @ rest") auto
  have "take (length ?sep) (c # cs) = ?sep" using cs by (metis append_eq_conv_conj)
  moreover have "drop (length ?sep) (c # cs) = rest" using cs by (metis append_eq_conv_conj)
  ultimately have "split_from ?sep cur (c # cs) = cur # split_from ?sep [] rest" by simp
  then show ?case using cs by simp
next
  case (Cons c cs)
  let ?sep = "pre @ x # post"
  let ?t = "(c # cs) @ ?sep @ rest"
  have "take (length ?sep) ?t \<noteq> ?sep"
  proof
    assume eq: "take (length ?sep) ?t = ?sep"
    have "length pre < length ?sep" by simp
    then have "take (length ?sep) ?t ! length pre = ?t ! length pre" by (rule nth_take)
    with eq have "?t ! length pre = x" by (simp add: nth_append)
    moreover have "(((c # cs) @ pre) @ (x # post @ rest)) ! length pre = ((c # cs) @ pre) ! length pre"
      by (rule nth_append_left) simp
    then have "?t ! length pre = ((c # cs) @ pre) ! length pre" by simp
    moreover have "((c # cs) @ pre) ! length pre \<in> set ((c # cs) @ pre)"
      by (rule nth_mem) simp
    ultimately show False using Cons.prems assms(2) by auto
  qed
  then have "split_from ?sep cur (c # (cs @ ?sep @ rest)) = split_from ?sep (cur @ [c]) (cs @ ?sep @ rest)"
    by simp
  also have "\<dots> = (cur @ [c] @ cs) # split_from ?sep [] rest"
    using Cons.IH[of "cur @ [c]"] Cons.prems by simp
  finally show ?case by simp
qed

lemma separator_shape: "separator = [10, 10] @ 9473 # (replicate 11 9473 @ [10, 10])"
  by (simp add: separator_def numeral_eq_Suc)

lemma mark_in_separator: "9473 \<in> set separator"
  by (simp add: separator_def)

lemma split_join:
  "parts \<noteq> [] \<Longrightarrow> \<forall>p\<in>set parts. 9473 \<notin> set p \<Longrightarrow>
   split_from separator cur (join separator parts) = (cur @ hd parts) # tl parts"
proof (induction separator parts arbitrary: cur rule: join.induct)
  case 1
  then show ?case by simp
next
  case (2 p)
  then show ?case using split_from_no_mark[OF mark_in_separator, of p cur] by simp
next
  case (3 p q ps)
  have "9473 \<notin> set p" "(9473::nat) \<notin> set [10, 10]" using "3.prems" by simp_all
  then have "split_from ([10, 10] @ 9473 # (replicate 11 9473 @ [10, 10])) cur
          (p @ ([10, 10] @ 9473 # (replicate 11 9473 @ [10, 10])) @ join separator (q # ps)) =
        (cur @ p) # split_from ([10, 10] @ 9473 # (replicate 11 9473 @ [10, 10])) []
          (join separator (q # ps))"
    by (rule split_from_at_separator)
  then have "split_from separator cur (p @ separator @ join separator (q # ps)) =
        (cur @ p) # split_from separator [] (join separator (q # ps))"
    by (simp only: separator_shape[symmetric])
  then show ?case using "3.hyps"[of "[]"] "3.prems" by simp
qed

lemma join_snoc: "cur \<noteq> [] \<Longrightarrow> join sep (cur @ [p]) = join sep cur @ sep @ p"
  by (induction sep cur rule: join.induct) auto

lemma join_nonempty: "cur \<noteq> [] \<Longrightarrow> \<forall>p\<in>set cur. p \<noteq> [] \<Longrightarrow> join sep cur \<noteq> []"
  by (induction sep cur rule: join.induct) auto

lemma pack_runs:
  assumes "\<forall>p\<in>set parts. p \<noteq> []"
    and "[] \<notin> set runs" and "\<forall>r\<in>set runs. fits max_len r"
    and "messages = map (join separator) runs"
    and "current = join separator cur" and "\<forall>p\<in>set cur. p \<noteq> []"
    and "cur = [] \<or> fits max_len cur"
  shows "\<exists>runs'. pack max_len messages current parts = map (join separator) runs' \<and>
           concat runs' = concat runs @ cur @ parts \<and> [] \<notin> set runs' \<and>
           (\<forall>r\<in>set runs'. fits max_len r)"
  using assms
proof (induction parts arbitrary: runs messages current cur)
  case Nil
  show ?case
  proof (cases "cur = []")
    case True
    then have "current = []" using Nil by simp
    then show ?thesis using Nil True by (intro exI[of _ runs]) simp
  next
    case False
    then have "current \<noteq> []" using Nil join_nonempty by simp
    then show ?thesis using Nil False by (intro exI[of _ "runs @ [cur]"]) simp
  qed
next
  case (Cons part parts)
  have parts: "\<forall>p\<in>set parts. p \<noteq> []" and part: "part \<noteq> []" using Cons.prems(1) by simp_all
  show ?case
  proof (cases "cur = []")
    case True
    then have c: "current = []" using Cons.prems by simp
    have step: "pack max_len messages current (part # parts) = pack max_len messages part parts"
      using c by (simp add: candidate_of_def)
    have "\<exists>runs'. pack max_len messages part parts = map (join separator) runs' \<and>
           concat runs' = concat runs @ [part] @ parts \<and> [] \<notin> set runs' \<and>
           (\<forall>r\<in>set runs'. fits max_len r)"
      by (rule Cons.IH[OF parts Cons.prems(2,3,4)]) (simp_all add: part fits_def)
    then show ?thesis using step True by simp
  next
    case False
    then have c: "current \<noteq> []" using Cons.prems join_nonempty by simp
    have cand: "candidate_of current part = join separator (cur @ [part])"
      using c False Cons.prems(5) by (simp add: candidate_of_def join_snoc)
    show ?thesis
    proof (cases "length (candidate_of current part) > max_len")
      case True
      have step: "pack max_len messages current (part # parts) = pack max_len (messages @ [current]) part parts"
        using c True by simp
      have f: "fits max_len cur" using False Cons.prems(7) by simp
      have "\<exists>runs'. pack max_len (messages @ [current]) part parts = map (join separator) runs' \<and>
           concat runs' = concat (runs @ [cur]) @ [part] @ parts \<and> [] \<notin> set runs' \<and>
           (\<forall>r\<in>set runs'. fits max_len r)"
        by (rule Cons.IH[OF parts]) (use Cons.prems False f part in \<open>simp_all add: fits_def\<close>)
      then show ?thesis using step by simp
    next
      case notlong: False
      have step: "pack max_len messages current (part # parts) =
                  pack max_len messages (candidate_of current part) parts"
        using notlong by simp
      have "\<exists>runs'. pack max_len messages (candidate_of current part) parts = map (join separator) runs' \<and>
           concat runs' = concat runs @ (cur @ [part]) @ parts \<and> [] \<notin> set runs' \<and>
           (\<forall>r\<in>set runs'. fits max_len r)"
        by (rule Cons.IH[OF parts Cons.prems(2,3,4) cand])
           (use Cons.prems part notlong cand in \<open>simp_all add: fits_def\<close>)
      then show ?thesis using step by simp
    qed
  qed
qed

lemma join_header: "blocks \<noteq> [] \<Longrightarrow> header @ join sep blocks = join sep ((header @ hd blocks) # tl blocks)"
  by (induction sep blocks rule: join.induct) auto

text \<open>
  Claim C5 (amended). For every report assembled from a header and non-empty item blocks
  joined by the separator, where neither the header nor a block contains the separator's
  rule character U+2501, and for every maximum length, \<open>_split_message\<close> cuts at item
  boundaries only: its chunks are the joins of consecutive runs of whole parts, a part
  being an item, with the header in front of it when it is the first; nothing is lost or
  reordered; and every chunk is within the maximum length unless it consists of exactly
  one part, which then exceeds the maximum on its own (an item longer than the maximum, or
  the header and the first item when they are longer together).
\<close>

theorem split_message_whole_items:
  assumes "property_blocks \<noteq> []"
    and "\<forall>b\<in>set property_blocks. b \<noteq> [] \<and> 9473 \<notin> set b"
    and "9473 \<notin> set header"
  shows "whole_parts max_len ((header @ hd property_blocks) # tl property_blocks)
           (split_message (full_msg header property_blocks) max_len)"
proof -
  let ?parts = "(header @ hd property_blocks) # tl property_blocks"
  let ?text = "full_msg header property_blocks"
  have t: "?text = join separator ?parts" using assms(1) by (simp add: full_msg_def join_header)
  have hd_tl: "hd property_blocks \<in> set property_blocks" "set (tl property_blocks) \<subseteq> set property_blocks"
    using assms(1) by (simp_all add: list.set_sel(2) subsetI)
  have ne: "\<forall>p\<in>set ?parts. p \<noteq> []" using assms(2) hd_tl by auto
  have nm: "\<forall>p\<in>set ?parts. 9473 \<notin> set p" using assms(2,3) hd_tl by auto
  show ?thesis
  proof (cases "length ?text \<le> max_len")
    case True
    have "concat [?parts] = ?parts \<and> [] \<notin> set [?parts] \<and> [?text] = map (join separator) [?parts] \<and>
          (\<forall>r\<in>set [?parts]. fits max_len r)"
      using True t by (simp add: fits_def)
    then have "whole_parts max_len ?parts [?text]" unfolding whole_parts_def by (rule exI)
    then show ?thesis using True by (simp add: split_message_def)
  next
    case False
    have sp: "split ?text separator = ?parts"
      using split_join[of ?parts "[]"] nm t by (simp add: split_def)
    have "\<exists>runs. pack max_len [] [] ?parts = map (join separator) runs \<and>
      concat runs = concat [] @ [] @ ?parts \<and> [] \<notin> set runs \<and> (\<forall>r\<in>set runs. fits max_len r)"
      by (rule pack_runs[OF ne]) simp_all
    then obtain runs where "concat runs = ?parts \<and> [] \<notin> set runs \<and>
        pack max_len [] [] ?parts = map (join separator) runs \<and> (\<forall>r\<in>set runs. fits max_len r)"
      by auto
    then have "whole_parts max_len ?parts (pack max_len [] [] ?parts)"
      unfolding whole_parts_def by (rule exI)
    then show ?thesis using False sp by (simp add: split_message_def)
  qed
qed

text \<open>The header counts towards the first chunk: a first item that fits on its own is
  handed over above the maximum length when the header makes it longer.\<close>

lemma split_message_header_oversize:
  "split_message (full_msg (replicate 30 97) [replicate 4080 98]) 4096
     = [replicate 30 97 @ replicate 4080 98] \<and>
   length (replicate 4080 (98::nat)) \<le> 4096 \<and>
   length (replicate 30 (97::nat) @ replicate 4080 98) > 4096"
proof -
  have "9473 \<notin> set (replicate 30 (97::nat) @ replicate 4080 98)" by auto
  then have "split (replicate 30 97 @ replicate 4080 98) separator = [replicate 30 97 @ replicate 4080 98]"
    using split_from_no_mark[OF mark_in_separator, of "replicate 30 97 @ replicate 4080 98" "[]"]
    by (simp add: split_def)
  then show ?thesis by (simp add: split_message_def full_msg_def candidate_of_def)
qed

text \<open>
  As stated, C5 fails: an item longer than the maximum is never cut, so it is handed over
  as one chunk above the maximum length.
\<close>

theorem split_message_oversize_counterexample:
  "split_message (full_msg [] [replicate 4097 97]) 4096 = [replicate 4097 97] \<and>
   length (replicate 4097 (97::nat)) > 4096"
proof -
  have "split (replicate 4097 97) separator = [replicate 4097 97]"
    using split_from_no_mark[OF mark_in_separator, of "replicate 4097 97" "[]"] by (simp add: split_def)
  then show ?thesis by (simp add: split_message_def full_msg_def candidate_of_def)
qed

theorem split_message_whole_items_witness:
  "[u ''one'', u ''two''] \<noteq> [] \<and>
   list_all (\<lambda>b. b \<noteq> [] \<and> 9473 \<notin> set b) [u ''one'', u ''two''] \<and>
   9473 \<notin> set (u ''H'') \<and>
   whole_parts 10 [u ''Hone'', u ''two''] (split_message (full_msg (u ''H'') [u ''one'', u ''two'']) 10)"
proof -
  have h1: "[u ''one'', u ''two''] \<noteq> []" by simp
  have h2: "\<forall>b\<in>set [u ''one'', u ''two'']. b \<noteq> [] \<and> 9473 \<notin> set b" by (simp add: u_def)
  have h3: "9473 \<notin> set (u ''H'')" by (simp add: u_def)
  show ?thesis using h1 h2 h3 split_message_whole_items[OF h1 h2 h3, of 10] by (simp add: u_def)
qed

text \<open>
  The chunks \<open>_split_message\<close> returns are not what the sink receives:
  \<open>send_notifications\<close> puts the continuation header in front of every chunk after the
  first, after the split. Two items of 4090 characters each are split into two chunks
  within the limit, and the second one is handed over above it.
\<close>

lemma continuation_header_exceeds_limit:
  "split_message (full_msg [] [replicate 4090 97, replicate 4090 98]) 4096 =
     [replicate 4090 97, replicate 4090 98] \<and>
   handed_to_sink [] (continuation_header (u ''Madrid'')) [replicate 4090 97, replicate 4090 98] =
     [replicate 4090 97, continuation_header (u ''Madrid'') @ replicate 4090 98] \<and>
   length (continuation_header (u ''Madrid'') @ replicate 4090 98) > 4096"
proof -
  have "split_from separator [] (join separator [replicate 4090 97, replicate 4090 98]) =
        ([] @ hd [replicate 4090 97, replicate 4090 98]) # tl [replicate 4090 97, replicate 4090 98]"
    by (rule split_join) simp_all
  then have sp: "split (replicate 4090 97 @ separator @ replicate 4090 98) separator =
        [replicate 4090 97, replicate 4090 98]"
    by (simp add: split_def)
  have len: "length separator = 16" by (simp add: separator_def)
  have 1: "split_message (full_msg [] [replicate 4090 97, replicate 4090 98]) 4096 =
     [replicate 4090 97, replicate 4090 98]"
    by (simp add: split_message_def full_msg_def sp len candidate_of_def)
  have 2: "length (continuation_header (u ''Madrid'') @ replicate 4090 98) > 4096"
    by (simp add: continuation_header_def u_def)
  show ?thesis using 2 by (simp add: handed_to_sink_def 1)
qed

section \<open>Properties of the evaluator client\<close>

lemma upt3: "[0 ..< 3] = [0, 1, 2]" by (simp add: upt_rec numeral_eq_Suc)

lemma single_result_raises: "is_overloaded r \<Longrightarrow> raises HTTPError (single_result r)"
  by (cases r) (auto simp: is_overloaded_def single_result_def read_response_def raises_def)

text \<open>
  Claim C6 (amended). Under the Anthropic provider, a request answered with the overloaded
  status 529 is retried at most twice, after sleeping 15 s and then 30 s (15 s times the
  attempt number); the call ends with the first exchange that is not a 529, or with the
  third one, and whatever that exchange fails with (a third 529 included) is raised without
  a further retry. Under any other provider setting one request is made, no retry happens
  and every failure is raised.
\<close>

theorem call_llm_retry_policy:
  "(lower (ANALYZER_PROVIDER cfg) = u ''anthropic'' \<and> is_set (ANTHROPIC_API_KEY cfg) \<longrightarrow>
      call_llm cfg post =
        (if \<not> is_overloaded (post 0) then \<lparr>outcome = single_result (post 0), sleeps = [], requests = 1\<rparr>
         else if \<not> is_overloaded (post 1) then \<lparr>outcome = single_result (post 1), sleeps = [15], requests = 2\<rparr>
         else \<lparr>outcome = single_result (post 2), sleeps = [15, 30], requests = 3\<rparr>)) \<and>
   (lower (ANALYZER_PROVIDER cfg) \<noteq> u ''anthropic'' \<and> is_set (GEMINI_API_KEY cfg) \<longrightarrow>
      call_llm cfg post = \<lparr>outcome = single_result (post 0), sleeps = [], requests = 1\<rparr>) \<and>
   (is_overloaded (post 2) \<longrightarrow> raises HTTPError (single_result (post 2)))"
proof (intro conjI impI)
  assume a: "lower (ANALYZER_PROVIDER cfg) = u ''anthropic'' \<and> is_set (ANTHROPIC_API_KEY cfg)"
  show "call_llm cfg post =
        (if \<not> is_overloaded (post 0) then \<lparr>outcome = single_result (post 0), sleeps = [], requests = 1\<rparr>
         else if \<not> is_overloaded (post 1) then \<lparr>outcome = single_result (post 1), sleeps = [15], requests = 2\<rparr>
         else \<lparr>outcome = single_result (post 2), sleeps = [15, 30], requests = 3\<rparr>)"
  proof (cases "post 0")
    case (PostRaised e)
    then show ?thesis using a by (simp add: call_llm_def call_anthropic_def upt3 is_overloaded_def single_result_def)
  next
    case r0: (Response s0 b0)
    show ?thesis
    proof (cases "s0 = 529")
      case False
      then show ?thesis using a r0
        by (simp add: call_llm_def call_anthropic_def upt3 is_overloaded_def single_result_def)
    next
      case True
      show ?thesis
      proof (cases "post 1")
        case (PostRaised e)
        then show ?thesis using a r0 True
          by (simp add: call_llm_def call_anthropic_def upt3 is_overloaded_def single_result_def)
      next
        case r1: (Response s1 b1)
        show ?thesis
        proof (cases "post 2")
          case (PostRaised e)
          then show ?thesis using a r0 True r1
            by (simp add: call_llm_def call_anthropic_def upt3 is_overloaded_def single_result_def
                numeral_2_eq_2 numeral_3_eq_3)
        next
          case (Response s2 b2)
          then show ?thesis using a r0 True r1
            by (simp add: call_llm_def call_anthropic_def upt3 is_overloaded_def single_result_def
                numeral_2_eq_2 numeral_3_eq_3)
        qed
      qed
    qed
  qed
next
  assume "lower (ANALYZER_PROVIDER cfg) \<noteq> u ''anthropic'' \<and> is_set (GEMINI_API_KEY cfg)"
  then show "call_llm cfg post = \<lparr>outcome = single_result (post 0), sleeps = [], requests = 1\<rparr>"
    by (cases "post 0") (simp_all add: call_llm_def call_gemini_def single_result_def)
next
  assume "is_overloaded (post 2)"
  then show "raises HTTPError (single_result (post 2))" by (rule single_result_raises)
qed

text \<open>
  As stated for either provider, C6 fails: \<open>call_gemini\<close> has no retry loop, so an
  overloaded response is raised after a single request.
\<close>

theorem call_gemini_no_retry_counterexample:
  "is_overloaded (always_busy 0) \<and>
   call_llm gemini_cfg always_busy =
     \<lparr>outcome = Inl (PyExc HTTPError (u ''HTTP error'')), sleeps = [], requests = 1\<rparr>"
  by (simp add: is_overloaded_def always_busy_def call_llm_def call_gemini_def gemini_cfg_def
      is_set_def read_response_def lower_def lower_cp_def u_def)

theorem call_llm_retry_policy_witness:
  "lower (ANALYZER_PROVIDER anthropic_cfg) = u ''anthropic'' \<and> is_set (ANTHROPIC_API_KEY anthropic_cfg) \<and>
   is_overloaded (busy_twice 0) \<and> is_overloaded (busy_twice 1) \<and>
   call_llm anthropic_cfg busy_twice = \<lparr>outcome = Inr (Some (u ''[]'')), sleeps = [15, 30], requests = 3\<rparr> \<and>
   lower (ANALYZER_PROVIDER gemini_cfg) \<noteq> u ''anthropic'' \<and> is_set (GEMINI_API_KEY gemini_cfg) \<and>
   call_llm gemini_cfg busy_twice = \<lparr>outcome = single_result (busy_twice 0), sleeps = [], requests = 1\<rparr> \<and>
   is_overloaded (always_busy 2) \<and> raises HTTPError (single_result (always_busy 2)) \<and>
   call_llm anthropic_cfg always_busy =
      \<lparr>outcome = Inl (PyExc HTTPError (u ''HTTP error'')), sleeps = [15, 30], requests = 3\<rparr>"
proof -
  have a: "lower (ANALYZER_PROVIDER anthropic_cfg) = u ''anthropic'' \<and> is_set (ANTHROPIC_API_KEY anthropic_cfg)"
    by (simp add: anthropic_cfg_def lower_def lower_cp_def is_set_def u_def)
  have g: "lower (ANALYZER_PROVIDER gemini_cfg) \<noteq> u ''anthropic'' \<and> is_set (GEMINI_API_KEY gemini_cfg)"
    by (simp add: gemini_cfg_def lower_def lower_cp_def is_set_def u_def)
  have o: "is_overloaded (busy_twice 0)" "is_overloaded (busy_twice 1)" "\<not> is_overloaded (busy_twice 2)"
      "is_overloaded (always_busy 0)" "is_overloaded (always_busy 1)" "is_overloaded (always_busy 2)"
    by (simp_all add: is_overloaded_def busy_twice_def always_busy_def)
  have f: "single_result (busy_twice 2) = Inr (Some (u ''[]''))"
      "single_result (always_busy 2) = Inl (PyExc HTTPError (u ''HTTP error''))"
    by (simp_all add: single_result_def busy_twice_def always_busy_def read_response_def)
  show ?thesis
    using a g o f call_llm_retry_policy[of anthropic_cfg busy_twice]
      call_llm_retry_policy[of gemini_cfg busy_twice]
      call_llm_retry_policy[of anthropic_cfg always_busy]
    by simp
qed

section \<open>Properties of the progress store and of the intake filter\<close>

lemma update_keys_absent:
  "k \<notin> fst ` set d \<Longrightarrow> map fst (AList.update k v d) = map fst d @ [k]"
  by (induction d) auto

text \<open>
  Claim C7 (amended). For every progress file that loads to a JSON object and whose
  stamped record the write can put down in full, \<open>save(load())\<close> raises nothing and leaves
  in the file the record that was loaded except for \<open>last_run\<close>, which is the current
  time: every other key keeps its value and the keys keep their order (\<open>last_run\<close> comes
  last when it was absent); loading the file again gives that record. The stamp does not
  depend on the record's content, so it is written also when nothing new was evaluated.
\<close>

theorem save_load_roundtrip:
  assumes "load_analyzed file = Inr (JDict d)"
    and "dump (JDict (AList.update (u ''last_run'') (JStr now) d)) = Written"
  shows "\<exists>d'. save_load dump now file = (Doc (JDict d'), None) \<and>
           load_analyzed (Doc (JDict d')) = Inr (JDict d') \<and>
           map_of d' (u ''last_run'') = Some (JStr now) \<and>
           (\<forall>k. k \<noteq> u ''last_run'' \<longrightarrow> map_of d' k = map_of d k) \<and>
           (u ''last_run'' \<in> fst ` set d \<longrightarrow> map fst d' = map fst d) \<and>
           (u ''last_run'' \<notin> fst ` set d \<longrightarrow> map fst d' = map fst d @ [u ''last_run''])"
proof (intro exI[of _ "AList.update (u ''last_run'') (JStr now) d"] conjI allI impI)
  show "save_load dump now file = (Doc (JDict (AList.update (u ''last_run'') (JStr now) d)), None)"
    using assms by (simp add: save_load_def)
  show "load_analyzed (Doc (JDict (AList.update (u ''last_run'') (JStr now) d)))
          = Inr (JDict (AList.update (u ''last_run'') (JStr now) d))" by simp
  show "map_of (AList.update (u ''last_run'') (JStr now) d) (u ''last_run'') = Some (JStr now)"
    by (simp add: update_conv')
  show "map_of (AList.update (u ''last_run'') (JStr now) d) k = map_of d k" if "k \<noteq> u ''last_run''" for k
    using that by (simp add: update_conv')
  show "map fst (AList.update (u ''last_run'') (JStr now) d) = map fst d" if "u ''last_run'' \<in> fst ` set d"
    using that by (simp add: update_keys)
  show "map fst (AList.update (u ''last_run'') (JStr now) d) = map fst d @ [u ''last_run'']"
    if "u ''last_run'' \<notin> fst ` set d"
    using that by (rule update_keys_absent)
qed

text \<open>
  As stated for every persisted record, C7 fails: a record holding a lone surrogate loads,
  but \<open>json.dump\<close> with \<open>ensure_ascii=False\<close> cannot encode it; \<open>open(..., "w")\<close> has emptied
  the file by then, so \<open>save(load())\<close> raises and the stored ids are lost: the next load
  gives the empty record.
\<close>

theorem save_load_surrogate_counterexample:
  "load_analyzed (Doc (JDict surrogate_record)) = Inr (JDict surrogate_record) \<and>
   save_load dump_fixture (u ''2026-01-02T10:00:00'') (Doc (JDict surrogate_record))
     = (truncated, Some (PyExc UnicodeEncodeError (u ''surrogates not allowed''))) \<and>
   load_analyzed truncated = Inr empty_record \<and>
   get_or_empty (JDict surrogate_record) (u ''analyzed_ids'') = Inr (JList [JStr [55296]]) \<and>
   get_or_empty empty_record (u ''analyzed_ids'') = Inr (JList [])"
  by (simp add: save_load_def surrogate_record_def dump_fixture_def truncated_def empty_record_def
      u_def)

theorem save_load_roundtrip_witness:
  "load_analyzed (Doc (JDict [(u ''analyzed_ids'', JList [JStr (u ''a1'')]), (u ''results'', JList []),
                              (u ''last_run'', JStr (u ''2026-01-01T10:00:00''))]))
     = Inr (JDict [(u ''analyzed_ids'', JList [JStr (u ''a1'')]), (u ''results'', JList []),
                   (u ''last_run'', JStr (u ''2026-01-01T10:00:00''))]) \<and>
   dump_fixture (JDict (AList.update (u ''last_run'') (JStr (u ''2026-01-02T10:00:00''))
      [(u ''analyzed_ids'', JList [JStr (u ''a1'')]), (u ''results'', JList []),
       (u ''last_run'', JStr (u ''2026-01-01T10:00:00''))])) = Written \<and>
   u ''results'' \<noteq> u ''last_run'' \<and>
   u ''last_run'' \<in> fst ` set [(u ''analyzed_ids'', JList [JStr (u ''a1'')]), (u ''results'', JList []),
                               (u ''last_run'', JStr (u ''2026-01-01T10:00:00''))] \<and>
   (\<exists>d'. save_load dump_fixture (u ''2026-01-02T10:00:00'')
            (Doc (JDict [(u ''analyzed_ids'', JList [JStr (u ''a1'')]), (u ''results'', JList []),
                         (u ''last_run'', JStr (u ''2026-01-01T10:00:00''))])) = (Doc (JDict d'), None) \<and>
        map_of d' (u ''last_run'') = Some (JStr (u ''2026-01-02T10:00:00'')) \<and>
        map_of d' (u ''results'') = Some (JList []) \<and>
        map fst d' = [u ''analyzed_ids'', u ''results'', u ''last_run''])"
proof -
  let ?d = "[(u ''analyzed_ids'', JList [JStr (u ''a1'')]), (u ''results'', JList []),
             (u ''last_run'', JStr (u ''2026-01-01T10:00:00''))]"
  let ?now = "u ''2026-01-02T10:00:00''"
  have h0: "load_analyzed (Doc (JDict ?d)) = Inr (JDict ?d)" by simp
  have h00: "dump_fixture (JDict (AList.update (u ''last_run'') (JStr ?now) ?d)) = Written"
    by (simp add: dump_fixture_def u_def)
  have h1: "u ''results'' \<noteq> u ''last_run''" by (simp add: u_def)
  have h2: "u ''last_run'' \<in> fst ` set ?d" by simp
  have h3: "map_of ?d (u ''results'') = Some (JList [])" by (simp add: u_def)
  from save_load_roundtrip[of "Doc (JDict ?d)" ?d dump_fixture ?now, OF h0 h00]
  obtain d' where d': "save_load dump_fixture ?now (Doc (JDict ?d)) = (Doc (JDict d'), None)"
    "map_of d' (u ''last_run'') = Some (JStr ?now)"
    "\<forall>k. k \<noteq> u ''last_run'' \<longrightarrow> map_of d' k = map_of ?d k"
    "u ''last_run'' \<in> fst ` set ?d \<longrightarrow> map fst d' = map fst ?d"
    by (elim exE conjE)
  from d'(3) h1 h3 have r: "map_of d' (u ''results'') = Some (JList [])" by simp
  from d'(4) h2 have k: "map fst d' = [u ''analyzed_ids'', u ''results'', u ''last_run'']" by simp
  have ex: "\<exists>d'. save_load dump_fixture ?now (Doc (JDict ?d)) = (Doc (JDict d'), None) \<and>
        map_of d' (u ''last_run'') = Some (JStr ?now) \<and>
        map_of d' (u ''results'') = Some (JList []) \<and>
        map fst d' = [u ''analyzed_ids'', u ''results'', u ''last_run'']"
    by (intro exI[of _ d'] conjI d'(1,2) r k)
  show ?thesis by (intro conjI h0 h00 h1 h2 ex)
qed

lemma get_unanalyzed_member:
  "p \<in> set (get_unanalyzed parse_iso now properties ids) \<longleftrightarrow>
   p \<in> set properties \<and> JStr (cid p) \<notin> ids \<and>
   \<not> ((case scraped_at p of None \<Rightarrow> [] | Some s \<Rightarrow> s) \<noteq> [] \<and>
      (case parse_iso (case scraped_at p of None \<Rightarrow> [] | Some s \<Rightarrow> s) of
         None \<Rightarrow> False | Some t \<Rightarrow> t < now - timedelta_days DAYS_TO_ANALYZE))"
  by (induction properties) auto

text \<open>
  Claim C10. A candidate whose \<open>scraped_at\<close> is a non-empty string that
  \<open>datetime.fromisoformat\<close> rejects is treated as one without a timestamp: whatever the
  current time, it is selected exactly when its id is not in the analyzed set.
\<close>

theorem get_unanalyzed_invalid_timestamp:
  assumes "p \<in> set properties" and "scraped_at p = Some s" and "s \<noteq> []"
    and "parse_iso s = None"
  shows "(p \<in> set (get_unanalyzed parse_iso now properties ids) \<longleftrightarrow>
            JStr (cid p) \<notin> ids) \<and>
         (p \<in> set (get_unanalyzed parse_iso now properties ids) \<longleftrightarrow>
            p\<lparr>scraped_at := None\<rparr> \<in> set (get_unanalyzed parse_iso now
               (map (\<lambda>q. if q = p then q\<lparr>scraped_at := None\<rparr> else q) properties) ids))"
proof -
  have 1: "p \<in> set (get_unanalyzed parse_iso now properties ids) \<longleftrightarrow>
            JStr (cid p) \<notin> ids"
    using assms by (simp add: get_unanalyzed_member)
  have "p\<lparr>scraped_at := None\<rparr> \<in> set (map (\<lambda>q. if q = p then q\<lparr>scraped_at := None\<rparr> else q) properties)"
    using assms(1) by force
  then have "p\<lparr>scraped_at := None\<rparr> \<in> set (get_unanalyzed parse_iso now
               (map (\<lambda>q. if q = p then q\<lparr>scraped_at := None\<rparr> else q) properties) ids)
             \<longleftrightarrow> JStr (cid p) \<notin> ids"
    by (simp add: get_unanalyzed_member)
  with 1 show ?thesis by simp
qed

theorem get_unanalyzed_invalid_timestamp_witness:
  "stamped_fixture \<in> set [flat_fixture, stamped_fixture] \<and>
   scraped_at stamped_fixture = Some (u ''yesterday'') \<and> u ''yesterday'' \<noteq> [] \<and>
   no_timestamp (u ''yesterday'') = None \<and>
   JStr (cid stamped_fixture) \<notin> {JStr (u ''a1'')} \<and>
   stamped_fixture \<in> set (get_unanalyzed no_timestamp 0 [flat_fixture, stamped_fixture] {JStr (u ''a1'')})"
proof -
  have h1: "stamped_fixture \<in> set [flat_fixture, stamped_fixture]" by simp
  have h2: "scraped_at stamped_fixture = Some (u ''yesterday'')" by (simp add: stamped_fixture_def)
  have h3: "u ''yesterday'' \<noteq> []" by (simp add: u_def)
  have h4: "no_timestamp (u ''yesterday'') = None" by (simp add: no_timestamp_def)
  have h5: "JStr (cid stamped_fixture) \<notin> {JStr (u ''a1'')}" by (simp add: stamped_fixture_def u_def)
  note t = get_unanalyzed_invalid_timestamp[of stamped_fixture "[flat_fixture, stamped_fixture]"
        "u ''yesterday''" no_timestamp 0 "{JStr (u ''a1'')}", OF h1 h2 h3 h4]
  from t have "stamped_fixture \<in> set (get_unanalyzed no_timestamp 0 [flat_fixture, stamped_fixture] {JStr (u ''a1'')})
      \<longleftrightarrow> JStr (cid stamped_fixture) \<notin> {JStr (u ''a1'')}"
    by (rule conjunct1)
  with h5 have m: "stamped_fixture \<in> set (get_unanalyzed no_timestamp 0 [flat_fixture, stamped_fixture] {JStr (u ''a1'')})"
    by (simp only: simp_thms)
  show ?thesis by (intro conjI h1 h2 h3 h4 h5 m)
qed

section \<open>Properties of the run\<close>

subsection \<open>The exclusion list\<close>

lemma contains_empty: "contains s []"
  by (cases s) simp_all

lemma contains_append_right: "contains b s \<Longrightarrow> contains (a @ b) s"
proof (induction a)
  case Nil
  then show ?case by simp
next
  case (Cons c cs)
  then show ?case by simp
qed

lemma take_append_short: "n \<le> length xs \<Longrightarrow> take n (xs @ ys) = take n xs"
  by simp

lemma contains_append_left: "contains a s \<Longrightarrow> contains (a @ b) s"
proof (induction a)
  case Nil
  then show ?case using contains_empty by simp
next
  case (Cons c cs)
  from Cons.prems have "take (length s) (c # cs) = s \<or> contains cs s" by simp
  then show ?case
  proof
    assume t: "take (length s) (c # cs) = s"
    then have "length (take (length s) (c # cs)) = length s" by simp
    then have "length s \<le> length (c # cs)" by (simp add: min_def split: if_splits)
    then have "take (length s) ((c # cs) @ b) = take (length s) (c # cs)" by (rule take_append_short)
    then show ?thesis using t by simp
  next
    assume "contains cs s"
    then have "contains (cs @ b) s" by (rule Cons.IH)
    then show ?thesis by simp
  qed
qed

lemma lower_append: "lower (a @ b) = lower a @ lower b"
  by (simp add: lower_def)

lemma matches_zone_text:
  assumes "matches_zone a \<or> matches_zone t"
  shows "list_ex (\<lambda>zone. contains (lower (a @ u '' '' @ t)) (lower zone)) BLACKLISTED_ZONES"
proof -
  from assms obtain zone where z: "zone \<in> set BLACKLISTED_ZONES"
    and c: "contains (lower a) (lower zone) \<or> contains (lower t) (lower zone)"
    by (auto simp: matches_zone_def list_ex_iff)
  have "contains (lower a @ lower (u '' '') @ lower t) (lower zone)"
    using c contains_append_left contains_append_right by blast
  then show ?thesis using z by (auto simp: list_ex_iff lower_append)
qed

lemma matches_zone_nonempty: "\<not> matches_zone []"
  by (simp add: matches_zone_def BLACKLISTED_ZONES_def lower_def u_def)

lemma excluded_zone_blacklisted: "in_excluded_zone p \<Longrightarrow> is_blacklisted p"
proof -
  assume a: "in_excluded_zone p"
  let ?a = "case address p of None \<Rightarrow> [] | Some a \<Rightarrow> a"
  let ?t = "case title p of None \<Rightarrow> [] | Some t \<Rightarrow> t"
  from a have "matches_zone ?a \<or> matches_zone ?t"
    by (auto simp: in_excluded_zone_def split: option.splits)
  then show ?thesis using matches_zone_text[of ?a ?t] by (simp add: is_blacklisted_def Let_def)
qed

subsection \<open>The set of analyzed ids\<close>

lemma set_set_add: "set (set_add x s) = insert x (set s)"
  by (auto simp: set_add_def)

lemma fold_set_add:
  "set (fold (\<lambda>p s. set_add (JStr (cid p)) s) ps ids) = (\<lambda>p. JStr (cid p)) ` set ps \<union> set ids"
  by (induction ps arbitrary: ids) (auto simp: set_set_add)

lemma absorb_result_ids:
  "absorb_result r st = Inr st' \<Longrightarrow> set (analyzed_ids st) \<subseteq> set (analyzed_ids st')"
  by (auto simp: absorb_result_def set_set_add split: sum.splits json.splits option.splits if_splits)

lemma absorb_results_ids:
  "absorb_results rs st = Inr st' \<Longrightarrow> set (analyzed_ids st) \<subseteq> set (analyzed_ids st')"
proof (induction rs arbitrary: st)
  case Nil
  then show ?case by simp
next
  case (Cons r rs)
  from Cons.prems obtain st1 where 1: "absorb_result r st = Inr st1" and 2: "absorb_results rs st1 = Inr st'"
    by (auto split: sum.splits)
  from absorb_result_ids[OF 1] Cons.IH[OF 2] show ?case by blast
qed

lemma absorb_result_evaluated: "absorb_result r st = Inr st' \<Longrightarrow> evaluated st' = evaluated st"
  by (auto simp: absorb_result_def split: sum.splits json.splits option.splits if_splits)

lemma absorb_results_evaluated: "absorb_results rs st = Inr st' \<Longrightarrow> evaluated st' = evaluated st"
proof (induction rs arbitrary: st)
  case Nil
  then show ?case by simp
next
  case (Cons r rs)
  then show ?case by (auto split: sum.splits dest: absorb_result_evaluated)
qed

text \<open>One round of the loop, by cases.\<close>

lemma run_batches_step:
  "(\<exists>e. run_batches w (batch # batches) st = st\<lparr>evaluated := evaluated st @ [batch], raised := Some e\<rparr>) \<or>
   (\<exists>results st' written.
      absorb_results results (st\<lparr>evaluated := evaluated st @ [batch]\<rparr>) = Inr st' \<and>
      ((\<exists>e. run_batches w (batch # batches) st = st'\<lparr>stored := written, raised := Some e\<rparr>) \<or>
       run_batches w (batch # batches) st = run_batches w batches (st'\<lparr>stored := written\<rparr>)))"
proof (cases "evaluate_batch (numbers w) (json_loads w) (llm w batch) AGENTS (clock_iso w) batch")
  case (Inl e)
  then have "run_batches w (batch # batches) st = st\<lparr>evaluated := evaluated st @ [batch], raised := Some e\<rparr>"
    by simp
  then show ?thesis by blast
next
  case (Inr results)
  show ?thesis
  proof (cases "absorb_results results (st\<lparr>evaluated := evaluated st @ [batch]\<rparr>)")
    case (Inl e)
    then have "run_batches w (batch # batches) st = st\<lparr>evaluated := evaluated st @ [batch], raised := Some e\<rparr>"
      using Inr by simp
    then show ?thesis by blast
  next
    case st': (Inr st')
    obtain written x where s: "save_analyzed (json_dump w) (clock_iso w)
                       (JDict [(u ''analyzed_ids'', JList (analyzed_ids st')),
                               (u ''results'', all_results st')]) (stored st') = (written, x)"
      by (rule prod.exhaust)
    show ?thesis
    proof (cases x)
      case None
      have "run_batches w (batch # batches) st = run_batches w batches (st'\<lparr>stored := written\<rparr>)"
        using Inr st' s None by (simp del: save_analyzed.simps)
      then show ?thesis using st' by blast
    next
      case (Some e)
      have "run_batches w (batch # batches) st = st'\<lparr>stored := written, raised := Some e\<rparr>"
        using Inr st' s Some by (simp del: save_analyzed.simps)
      then show ?thesis using st' by blast
    qed
  qed
qed

lemma run_batches_ids:
  "set (analyzed_ids st) \<subseteq> set (analyzed_ids (run_batches w batches st))"
proof (induction batches arbitrary: st)
  case Nil
  then show ?case by simp
next
  case (Cons batch batches)
  from run_batches_step[of w batch batches st] show ?case
  proof (elim disjE exE conjE)
    fix e assume "run_batches w (batch # batches) st = st\<lparr>evaluated := evaluated st @ [batch], raised := Some e\<rparr>"
    then show ?thesis by simp
  next
    fix results st' written e
    assume a: "absorb_results results (st\<lparr>evaluated := evaluated st @ [batch]\<rparr>) = Inr st'"
      and r: "run_batches w (batch # batches) st = st'\<lparr>stored := written, raised := Some e\<rparr>"
    from absorb_results_ids[OF a] show ?thesis using r by simp
  next
    fix results st' written
    assume a: "absorb_results results (st\<lparr>evaluated := evaluated st @ [batch]\<rparr>) = Inr st'"
      and r: "run_batches w (batch # batches) st = run_batches w batches (st'\<lparr>stored := written\<rparr>)"
    have "set (analyzed_ids (st'\<lparr>stored := written\<rparr>))
            \<subseteq> set (analyzed_ids (run_batches w batches (st'\<lparr>stored := written\<rparr>)))"
      by (rule Cons.IH)
    then show ?thesis using absorb_results_ids[OF a] r by simp
  qed
qed

lemma run_batches_evaluated:
  "set (evaluated (run_batches w batches st)) \<subseteq> set (evaluated st) \<union> set batches"
proof (induction batches arbitrary: st)
  case Nil
  then show ?case by simp
next
  case (Cons batch batches)
  from run_batches_step[of w batch batches st] show ?case
  proof (elim disjE exE conjE)
    fix e assume "run_batches w (batch # batches) st = st\<lparr>evaluated := evaluated st @ [batch], raised := Some e\<rparr>"
    then show ?thesis by auto
  next
    fix results st' written e
    assume a: "absorb_results results (st\<lparr>evaluated := evaluated st @ [batch]\<rparr>) = Inr st'"
      and r: "run_batches w (batch # batches) st = st'\<lparr>stored := written, raised := Some e\<rparr>"
    from absorb_results_evaluated[OF a] show ?thesis using r by auto
  next
    fix results st' written
    assume a: "absorb_results results (st\<lparr>evaluated := evaluated st @ [batch]\<rparr>) = Inr st'"
      and r: "run_batches w (batch # batches) st = run_batches w batches (st'\<lparr>stored := written\<rparr>)"
    have "set (evaluated (run_batches w batches (st'\<lparr>stored := written\<rparr>)))
            \<subseteq> set (evaluated (st'\<lparr>stored := written\<rparr>)) \<union> set batches"
      by (rule Cons.IH)
    then show ?thesis using absorb_results_evaluated[OF a] r by auto
  qed
qed

lemma batches_of_subset: "b \<in> set (batches_of n xs) \<Longrightarrow> set b \<subseteq> set xs"
proof (induction n xs rule: batches_of.induct)
  case (1 n xs)
  show ?case
  proof (cases "n = 0 \<or> xs = []")
    case True
    then show ?thesis using "1.prems" by (simp add: batches_of.simps)
  next
    case False
    then have "b = take n xs \<or> b \<in> set (batches_of n (drop n xs))"
      using "1.prems" by (subst (asm) batches_of.simps) auto
    then show ?thesis
    proof
      assume "b = take n xs"
      then show ?thesis by (simp add: set_take_subset)
    next
      assume "b \<in> set (batches_of n (drop n xs))"
      then have "set b \<subseteq> set (drop n xs)" using "1.IH" False by simp
      then show ?thesis using set_drop_subset by fastforce
    qed
  qed
qed

text \<open>No batch handed to \<open>evaluate_batch\<close> holds a listing the exclusion list matches.\<close>

lemma blacklisted_never_evaluated:
  "batch \<in> set (evaluated (main cfg w properties file)) \<Longrightarrow> p \<in> set batch \<Longrightarrow>
   \<not> is_blacklisted p \<and> p \<in> set properties"
proof -
  assume b: "batch \<in> set (evaluated (main cfg w properties file))" and p: "p \<in> set batch"
  have "\<exists>ids. batch \<in> set (batches_of BATCH_SIZE
          (filter (\<lambda>p. \<not> is_blacklisted p) (get_unanalyzed (fromisoformat w) (clock w) properties ids)))"
    using b run_batches_evaluated
    by (fastforce simp: main_def Let_def split: if_splits sum.splits)
  then obtain ids where "set batch \<subseteq> set (filter (\<lambda>p. \<not> is_blacklisted p)
      (get_unanalyzed (fromisoformat w) (clock w) properties ids))"
    using batches_of_subset by blast
  with p have "\<not> is_blacklisted p" "p \<in> set (get_unanalyzed (fromisoformat w) (clock w) properties ids)"
    by auto
  then show ?thesis by (simp add: get_unanalyzed_member)
qed

text \<open>What \<open>main\<close> does once the credentials are there and the progress file gave its ids.\<close>

lemma loaded_ids_results:
  "loaded_ids file = Inr ids \<Longrightarrow>
   \<exists>data rv. load_analyzed file = Inr data \<and>
      (\<exists>iv. get_or_empty data (u ''analyzed_ids'') = Inr iv \<and> py_set iv = Inr ids) \<and>
      get_or_empty data (u ''results'') = Inr rv"
proof -
  assume a: "loaded_ids file = Inr ids"
  then obtain data iv where d: "load_analyzed file = Inr data"
    "get_or_empty data (u ''analyzed_ids'') = Inr iv" "py_set iv = Inr ids"
    by (auto simp: loaded_ids_def split: sum.splits)
  from d(2) obtain m where "data = JDict m" by (cases data) simp_all
  then have "\<exists>rv. get_or_empty data (u ''results'') = Inr rv" by simp
  then show ?thesis using d by blast
qed

lemma main_after_load:
  assumes "configured cfg" "loaded_ids file = Inr ids"
  shows "\<exists>rv. main cfg w properties file =
     (if filter (\<lambda>p. \<not> is_blacklisted p) (get_unanalyzed (fromisoformat w) (clock w) properties (set ids)) = []
      then \<lparr>stored = file,
            analyzed_ids = fold (\<lambda>p s. set_add (JStr (cid p)) s)
              (filter is_blacklisted (get_unanalyzed (fromisoformat w) (clock w) properties (set ids))) ids,
            all_results = rv, to_send = [], skipped = 0, evaluated = [], raised = None\<rparr>
      else run_batches w
             (batches_of BATCH_SIZE
                (filter (\<lambda>p. \<not> is_blacklisted p) (get_unanalyzed (fromisoformat w) (clock w) properties (set ids))))
             \<lparr>stored = file,
              analyzed_ids = fold (\<lambda>p s. set_add (JStr (cid p)) s)
                (filter is_blacklisted (get_unanalyzed (fromisoformat w) (clock w) properties (set ids))) ids,
              all_results = rv, to_send = [], skipped = 0, evaluated = [], raised = None\<rparr>)"
proof -
  from loaded_ids_results[OF assms(2)] obtain data rv iv where
    d: "load_analyzed file = Inr data" "get_or_empty data (u ''analyzed_ids'') = Inr iv"
       "py_set iv = Inr ids" "get_or_empty data (u ''results'') = Inr rv"
    by blast
  have c1: "(lower (ANALYZER_PROVIDER cfg) = u ''anthropic'' \<and> \<not> is_set (ANTHROPIC_API_KEY cfg)) = False"
    and c2: "(lower (ANALYZER_PROVIDER cfg) = u ''gemini'' \<and> \<not> is_set (GEMINI_API_KEY cfg)) = False"
    using assms(1) by (simp_all add: configured_def)
  show ?thesis
    unfolding main_def Let_def c1 c2 using d
    by (intro exI[of _ rv]) (simp del: get_unanalyzed.simps)
qed

lemma main_marks_blacklisted:
  assumes "configured cfg" "p \<in> set (found_new w properties file)" "is_blacklisted p"
  shows "JStr (cid p) \<in> set (analyzed_ids (main cfg w properties file))"
proof -
  from assms(2) obtain ids where ids: "loaded_ids file = Inr ids"
    and p: "p \<in> set (get_unanalyzed (fromisoformat w) (clock w) properties (set ids))"
    by (cases "loaded_ids file") (auto simp: found_new_def)
  let ?found = "get_unanalyzed (fromisoformat w) (clock w) properties (set ids)"
  let ?marked = "fold (\<lambda>p s. set_add (JStr (cid p)) s) (filter is_blacklisted ?found) ids"
  have m: "JStr (cid p) \<in> set ?marked" using p assms(3) by (simp add: fold_set_add)
  from main_after_load[OF assms(1) ids, of w properties] obtain rv where
    r: "main cfg w properties file =
     (if filter (\<lambda>p. \<not> is_blacklisted p) ?found = []
      then \<lparr>stored = file, analyzed_ids = ?marked,
            all_results = rv, to_send = [], skipped = 0, evaluated = [], raised = None\<rparr>
      else run_batches w (batches_of BATCH_SIZE (filter (\<lambda>p. \<not> is_blacklisted p) ?found))
             \<lparr>stored = file, analyzed_ids = ?marked,
              all_results = rv, to_send = [], skipped = 0, evaluated = [], raised = None\<rparr>)"
    by (elim exE)
  let ?st = "\<lparr>stored = file, analyzed_ids = ?marked,
                all_results = rv, to_send = [], skipped = 0, evaluated = [], raised = None\<rparr>"
  show ?thesis
  proof (cases "filter (\<lambda>p. \<not> is_blacklisted p) ?found = []")
    case True
    then have "main cfg w properties file = ?st" using r by simp
    then show ?thesis using m by simp
  next
    case False
    then have "main cfg w properties file =
        run_batches w (batches_of BATCH_SIZE (filter (\<lambda>p. \<not> is_blacklisted p) ?found)) ?st"
      using r by simp
    moreover have "set (analyzed_ids ?st) \<subseteq> set (analyzed_ids
        (run_batches w (batches_of BATCH_SIZE (filter (\<lambda>p. \<not> is_blacklisted p) ?found)) ?st))"
      by (rule run_batches_ids)
    ultimately show ?thesis using m by auto
  qed
qed

lemma raval_excluded: "in_excluded_zone raval_fixture"
  by (simp add: in_excluded_zone_def matches_zone_def raval_fixture_def BLACKLISTED_ZONES_def
      lower_def lower_cp_def u_def)

lemma anthropic_configured: "configured anthropic_cfg"
  by (simp add: configured_def anthropic_cfg_def lower_def lower_cp_def is_set_def u_def)

lemma empty_record_fields:
  "get_or_empty empty_record (u ''analyzed_ids'') = Inr (JList [])"
  "get_or_empty empty_record (u ''results'') = Inr (JList [])"
  by (simp_all add: empty_record_def u_def)

lemma loaded_ids_missing: "loaded_ids Missing = Inr []"
  by (simp add: loaded_ids_def empty_record_fields)

text \<open>
  Claim C4. A listing whose address or title contains a name of the exclusion list, both
  lower-cased, is excluded before evaluation: \<open>is_blacklisted\<close> holds of it; in no run,
  this one or a later one, whatever the progress file holds, is it in a batch handed to
  \<open>evaluate_batch\<close>, the only place where evaluator calls and results are made; and a run
  that finds it new (its credentials set) adds its id to the set of analyzed ids.
\<close>

theorem blacklisted_excluded:
  assumes "in_excluded_zone p"
  shows "is_blacklisted p \<and>
         (\<forall>batch\<in>set (evaluated (main cfg w properties file)). p \<notin> set batch) \<and>
         (configured cfg \<longrightarrow> p \<in> set (found_new w properties file) \<longrightarrow>
            JStr (cid p) \<in> set (analyzed_ids (main cfg w properties file)))"
proof (intro conjI ballI impI)
  show b: "is_blacklisted p" using assms by (rule excluded_zone_blacklisted)
  show "p \<notin> set batch" if "batch \<in> set (evaluated (main cfg w properties file))" for batch
    using blacklisted_never_evaluated[OF that, of p] b by blast
  show "JStr (cid p) \<in> set (analyzed_ids (main cfg w properties file))"
    if "configured cfg" "p \<in> set (found_new w properties file)"
    using that b by (rule main_marks_blacklisted)
qed

theorem blacklisted_excluded_witness:
  "in_excluded_zone raval_fixture \<and> configured anthropic_cfg \<and>
   raval_fixture \<in> set (found_new world_fixture [flat_fixture, raval_fixture] Missing) \<and>
   is_blacklisted raval_fixture \<and>
   list_all (\<lambda>batch. raval_fixture \<notin> set batch)
     (evaluated (main anthropic_cfg world_fixture [flat_fixture, raval_fixture] Missing)) \<and>
   JStr (cid raval_fixture)
     \<in> set (analyzed_ids (main anthropic_cfg world_fixture [flat_fixture, raval_fixture] Missing))"
proof -
  have h1: "in_excluded_zone raval_fixture" by (rule raval_excluded)
  have h2: "configured anthropic_cfg" by (rule anthropic_configured)
  have h3: "raval_fixture \<in> set (found_new world_fixture [flat_fixture, raval_fixture] Missing)"
    by (simp add: found_new_def loaded_ids_missing world_fixture_def raval_fixture_def flat_fixture_def)
  note t = blacklisted_excluded[OF h1, of anthropic_cfg world_fixture "[flat_fixture, raval_fixture]" Missing]
  from t have c1: "is_blacklisted raval_fixture" by (rule conjunct1)
  from t have "\<forall>batch\<in>set (evaluated (main anthropic_cfg world_fixture [flat_fixture, raval_fixture] Missing)).
      raval_fixture \<notin> set batch"
    by (elim conjE)
  then have c2: "list_all (\<lambda>batch. raval_fixture \<notin> set batch)
     (evaluated (main anthropic_cfg world_fixture [flat_fixture, raval_fixture] Missing))"
    by (simp add: list_all_iff)
  from t h2 h3 have c3: "JStr (cid raval_fixture)
     \<in> set (analyzed_ids (main anthropic_cfg world_fixture [flat_fixture, raval_fixture] Missing))"
    by (elim conjE) simp
  show ?thesis by (intro conjI h1 h2 h3 c1 c2 c3)
qed

text \<open>
  The mark is kept in the set in memory; \<open>save_analyzed\<close> writes it with the first batch
  that is evaluated. A run whose new listings are all excluded returns at "Nothing new to
  analyze" with the file as it was, and the next run excludes the listing again by its
  text.
\<close>

lemma blacklisted_mark_in_memory:
  "main anthropic_cfg world_fixture [raval_fixture] Missing =
     \<lparr>stored = Missing, analyzed_ids = [JStr (cid raval_fixture)], all_results = JList [],
      to_send = [], skipped = 0, evaluated = [], raised = None\<rparr>"
proof -
  have f: "get_unanalyzed no_timestamp 0 [raval_fixture] {} = [raval_fixture]"
    by (simp add: raval_fixture_def)
  have b: "is_blacklisted raval_fixture" using raval_excluded by (rule excluded_zone_blacklisted)
  have c1: "(lower (ANALYZER_PROVIDER anthropic_cfg) = u ''anthropic'' \<and> \<not> is_set (ANTHROPIC_API_KEY anthropic_cfg)) = False"
    and c2: "(lower (ANALYZER_PROVIDER anthropic_cfg) = u ''gemini'' \<and> \<not> is_set (GEMINI_API_KEY anthropic_cfg)) = False"
    using anthropic_configured by (simp_all add: configured_def)
  show ?thesis
    unfolding main_def Let_def c1 c2
    by (simp add: empty_record_fields world_fixture_def f b set_add_def del: get_unanalyzed.simps)
qed

subsection \<open>The progress file in the run\<close>

lemma absorb_result_stored:
  "absorb_result r (st\<lparr>stored := f\<rparr>) =
     (case absorb_result r st of Inl e \<Rightarrow> Inl e | Inr s \<Rightarrow> Inr (s\<lparr>stored := f\<rparr>))"
  by (auto simp: absorb_result_def split: sum.splits json.splits option.splits)

lemma absorb_results_stored:
  "absorb_results rs (st\<lparr>stored := f\<rparr>) =
     (case absorb_results rs st of Inl e \<Rightarrow> Inl e | Inr s \<Rightarrow> Inr (s\<lparr>stored := f\<rparr>))"
proof (induction rs arbitrary: st)
  case Nil
  then show ?case by simp
next
  case (Cons r rs)
  then show ?case by (simp add: absorb_result_stored split: sum.splits)
qed

text \<open>The loop never reads the progress file: it only writes it.\<close>

lemma run_batches_stored:
  "besides_file (run_batches w batches (st\<lparr>stored := f\<rparr>)) = besides_file (run_batches w batches st)"
proof (cases batches)
  case Nil
  then show ?thesis by (simp add: besides_file_def)
next
  case (Cons batch rest)
  have e: "st\<lparr>stored := f, evaluated := evaluated st @ [batch]\<rparr>
           = (st\<lparr>evaluated := evaluated st @ [batch]\<rparr>)\<lparr>stored := f\<rparr>" by simp
  show ?thesis
    unfolding Cons
    by (simp add: e absorb_results_stored besides_file_def
        split: sum.splits write_outcome.splits del: absorb_results.simps)
qed

lemma main_not_configured:
  "\<not> configured cfg \<Longrightarrow>
   main cfg w properties file =
     \<lparr>stored = file, analyzed_ids = [], all_results = JList [], to_send = [],
      skipped = 0, evaluated = [], raised = None\<rparr>"
  by (auto simp: main_def Let_def configured_def)

lemma main_load_raises:
  "configured cfg \<Longrightarrow> load_analyzed file = Inl e \<Longrightarrow>
   main cfg w properties file =
     \<lparr>stored = file, analyzed_ids = [], all_results = JList [], to_send = [],
      skipped = 0, evaluated = [], raised = Some e\<rparr>"
  by (auto simp: main_def Let_def configured_def)

lemma main_ids_raise:
  "configured cfg \<Longrightarrow> loaded_ids file = Inl e \<Longrightarrow>
   main cfg w properties file =
     \<lparr>stored = file, analyzed_ids = [], all_results = JList [], to_send = [],
      skipped = 0, evaluated = [], raised = Some e\<rparr>"
  by (auto simp: main_def Let_def configured_def loaded_ids_def split: sum.splits)

lemma main_stored:
  assumes "load_analyzed f = load_analyzed g"
  shows "besides_file (main cfg w properties f) = besides_file (main cfg w properties g)"
proof (cases "configured cfg")
  case False
  then show ?thesis by (simp add: main_not_configured besides_file_def)
next
  case True
  have ids: "loaded_ids f = loaded_ids g" using assms by (simp add: loaded_ids_def)
  show ?thesis
  proof (cases "loaded_ids g")
    case (Inl e)
    then show ?thesis using True ids by (simp add: main_ids_raise besides_file_def)
  next
    case (Inr ids_g)
    from loaded_ids_results[OF Inr] obtain data rv where
      d: "load_analyzed g = Inr data" "get_or_empty data (u ''results'') = Inr rv" by blast
    let ?found = "get_unanalyzed (fromisoformat w) (clock w) properties (set ids_g)"
    let ?marked = "fold (\<lambda>p s. set_add (JStr (cid p)) s) (filter is_blacklisted ?found) ids_g"
    let ?B = "batches_of BATCH_SIZE (filter (\<lambda>p. \<not> is_blacklisted p) ?found)"
    have m: "main cfg w properties h =
       (if filter (\<lambda>p. \<not> is_blacklisted p) ?found = []
        then \<lparr>stored = h, analyzed_ids = ?marked,
              all_results = rv, to_send = [], skipped = 0, evaluated = [], raised = None\<rparr>
        else run_batches w ?B
               \<lparr>stored = h, analyzed_ids = ?marked,
                all_results = rv, to_send = [], skipped = 0, evaluated = [], raised = None\<rparr>)"
      if "load_analyzed h = load_analyzed g" for h
    proof -
      have c1: "(lower (ANALYZER_PROVIDER cfg) = u ''anthropic'' \<and> \<not> is_set (ANTHROPIC_API_KEY cfg)) = False"
        and c2: "(lower (ANALYZER_PROVIDER cfg) = u ''gemini'' \<and> \<not> is_set (GEMINI_API_KEY cfg)) = False"
        using True by (simp_all add: configured_def)
      have l: "load_analyzed h = Inr data" using that d by simp
      from Inr d obtain iv where iv: "get_or_empty data (u ''analyzed_ids'') = Inr iv" "py_set iv = Inr ids_g"
        by (auto simp: loaded_ids_def split: sum.splits)
      show ?thesis
        unfolding main_def Let_def c1 c2 l using iv d(2) by (simp del: get_unanalyzed.simps)
    qed
    have run: "besides_file (run_batches w ?B \<lparr>stored = f, analyzed_ids = ?marked, all_results = rv,
                 to_send = [], skipped = 0, evaluated = [], raised = None\<rparr>)
           = besides_file (run_batches w ?B \<lparr>stored = g, analyzed_ids = ?marked, all_results = rv,
                 to_send = [], skipped = 0, evaluated = [], raised = None\<rparr>)"
      using run_batches_stored[where w = w and batches = ?B and f = f and st = "\<lparr>stored = g,
                 analyzed_ids = ?marked, all_results = rv, to_send = [], skipped = 0, evaluated = [],
                 raised = None\<rparr>"] by simp
    show ?thesis
    proof (cases "filter (\<lambda>p. \<not> is_blacklisted p) ?found = []")
      case True
      then show ?thesis using m[OF assms] m[OF refl] by (simp add: besides_file_def)
    next
      case False
      then show ?thesis using m[OF assms] m[OF refl] run by simp
    qed
  qed
qed

text \<open>
  Claim C8 (amended). When the progress file is missing, or when reading it makes
  \<open>json.load\<close> raise JSONDecodeError, \<open>load_analyzed\<close> raises nothing and returns the empty
  record: no evaluated ids, no results, an empty last-run stamp; and the run goes on as it
  does without a progress file. Any other failure to read the file is not absorbed.
\<close>

theorem load_analyzed_absorbs:
  assumes "f = Missing \<or> f = Unloadable (PyExc JSONDecodeError m)"
  shows "load_analyzed f =
           Inr (JDict [(u ''analyzed_ids'', JList []), (u ''results'', JList []), (u ''last_run'', JStr [])]) \<and>
         loaded_ids f = Inr [] \<and>
         besides_file (main cfg w properties f) = besides_file (main cfg w properties Missing)"
proof -
  from assms have l: "load_analyzed f = Inr empty_record" by auto
  then have "load_analyzed f = load_analyzed Missing" by simp
  then have "besides_file (main cfg w properties f) = besides_file (main cfg w properties Missing)"
    by (rule main_stored)
  moreover have "loaded_ids f = Inr []" using l by (simp add: loaded_ids_def empty_record_fields)
  ultimately show ?thesis using l by (simp add: empty_record_def)
qed

text \<open>
  As stated for every corrupted file, C8 fails: a file whose bytes are not UTF-8 text
  makes the read raise UnicodeDecodeError, which \<open>load_analyzed\<close> does not catch, and the
  run ends there.
\<close>

theorem load_analyzed_binary_counterexample:
  "raises UnicodeDecodeError (load_analyzed binary_fixture) \<and>
   main anthropic_cfg world_fixture [flat_fixture] binary_fixture =
     \<lparr>stored = binary_fixture, analyzed_ids = [], all_results = JList [], to_send = [],
      skipped = 0, evaluated = [], raised = Some (PyExc UnicodeDecodeError (u ''invalid start byte''))\<rparr>"
proof -
  have c1: "(lower (ANALYZER_PROVIDER anthropic_cfg) = u ''anthropic'' \<and> \<not> is_set (ANTHROPIC_API_KEY anthropic_cfg)) = False"
    and c2: "(lower (ANALYZER_PROVIDER anthropic_cfg) = u ''gemini'' \<and> \<not> is_set (GEMINI_API_KEY anthropic_cfg)) = False"
    using anthropic_configured by (simp_all add: configured_def)
  have l: "load_analyzed binary_fixture = Inl (PyExc UnicodeDecodeError (u ''invalid start byte''))"
    by (simp add: binary_fixture_def)
  have "main anthropic_cfg world_fixture [flat_fixture] binary_fixture =
     \<lparr>stored = binary_fixture, analyzed_ids = [], all_results = JList [], to_send = [],
      skipped = 0, evaluated = [], raised = Some (PyExc UnicodeDecodeError (u ''invalid start byte''))\<rparr>"
    unfolding main_def Let_def c1 c2 l by simp
  then show ?thesis using l by (simp add: raises_def)
qed

text \<open>A file that holds JSON of another shape loads, and ends the run at the first \<open>.get\<close>.\<close>

lemma main_wrong_shape:
  "load_analyzed (Doc (JList [])) = Inr (JList []) \<and>
   (\<exists>e. raised (main anthropic_cfg world_fixture [flat_fixture] (Doc (JList []))) = Some e \<and>
        exc_class_of e = AttributeError)"
proof -
  have c1: "(lower (ANALYZER_PROVIDER anthropic_cfg) = u ''anthropic'' \<and> \<not> is_set (ANTHROPIC_API_KEY anthropic_cfg)) = False"
    and c2: "(lower (ANALYZER_PROVIDER anthropic_cfg) = u ''gemini'' \<and> \<not> is_set (GEMINI_API_KEY anthropic_cfg)) = False"
    using anthropic_configured by (simp_all add: configured_def)
  show ?thesis unfolding main_def Let_def c1 c2 by simp
qed

theorem load_analyzed_absorbs_witness:
  "(truncated = Missing \<or> truncated = Unloadable (PyExc JSONDecodeError (u ''Expecting value''))) \<and>
   load_analyzed truncated =
     Inr (JDict [(u ''analyzed_ids'', JList []), (u ''results'', JList []), (u ''last_run'', JStr [])]) \<and>
   loaded_ids truncated = Inr [] \<and>
   besides_file (main anthropic_cfg world_fixture [flat_fixture] truncated)
     = besides_file (main anthropic_cfg world_fixture [flat_fixture] Missing)"
proof -
  have h: "truncated = Missing \<or> truncated = Unloadable (PyExc JSONDecodeError (u ''Expecting value''))"
    by (simp add: truncated_def)
  from load_analyzed_absorbs[OF h, of anthropic_cfg world_fixture "[flat_fixture]"] h
  show ?thesis by (intro conjI) simp_all
qed

end
